theory Spec2Isabelle
  imports Complex_Main
begin

section \<open>Data model of \<open>CardLayout.ts\<close>\<close>

text \<open>
  The source computes with JavaScript numbers. They are modelled as \<^typ>\<open>real\<close>:
  rounding of IEEE doubles is not part of the model, and the one division whose divisor
  can be 0 is written with \<open>quotient\<close> below. A \<open>{x, y}\<close> position object is a pair,
  first component \<open>x\<close>, second component \<open>y\<close>.
\<close>

type_synonym Vector2d = "real \<times> real"

text \<open>
  The attributes every Konva node carries and that the layout code reads or writes
  through the accessor of the same name.
\<close>

record Node =
  x :: real
  y :: real
  width :: real
  height :: real
  scaleX :: real
  scaleY :: real
  rotation :: real
  opacity :: real
  visible :: bool

text \<open>
  A \<open>LayoutChild\<close>: a node with an identity (\<open>cid\<close>, standing for the object reference),
  the slot \<open>tween\<close> holding the handle of a tween or \<open>null\<close>, the flag
  \<open>doMisplayAnimation\<close>, and \<open>card.state.suitIndex\<close> of the card it wraps.
\<close>

record LayoutChild = Node +
  cid :: nat
  tween :: "nat option"
  doMisplayAnimation :: bool
  suitIndex :: "nat option"

text \<open>A node together with the value its \<open>getAbsolutePosition()\<close> returns.\<close>

record Group = Node +
  absolutePosition :: Vector2d

type_synonym PlayStack = Group

record CardLayout = Group +
  align :: string
  reverse :: bool
  origRotation :: real
  empathy :: bool
  children :: "LayoutChild list"

datatype Error = Error string | TypeError

subsection \<open>The constructor\<close>

text \<open>
  \<open>Konva.ContainerConfig\<close>: every entry is optional. \<open>super(config)\<close> copies the entries
  that are present into the node's attributes; an attribute that is absent reads as its
  Konva default (position 0, scale 1, rotation 0, opacity 1, visible).
\<close>

record ContainerConfig =
  cfg_x :: "real option"
  cfg_y :: "real option"
  cfg_width :: "real option"
  cfg_height :: "real option"
  cfg_rotation :: "real option"
  cfg_align :: "string option"
  cfg_reverse :: "bool option"

definition orElse :: "'a option \<Rightarrow> 'a \<Rightarrow> 'a" where
  "orElse v d = (case v of None \<Rightarrow> d | Some a \<Rightarrow> a)"

text \<open>
  \<open>config["align"] || "left"\<close> replaces every falsy value, so also the empty string;
  \<open>config["reverse"] || false\<close> keeps a boolean as it is; \<open>config.rotation ?? 0\<close>
  replaces only an absent value. The two checks come last, the one on the width first.
\<close>

definition constructor :: "ContainerConfig \<Rightarrow> Error + CardLayout" where
  "constructor config =
     (let this_align = (case cfg_align config of
                          None \<Rightarrow> ''left''
                        | Some a \<Rightarrow> if a = [] then ''left'' else a);
          this_reverse = orElse (cfg_reverse config) False;
          this_origRotation = orElse (cfg_rotation config) 0;
          this_empathy = False
      in case cfg_width config of
           None \<Rightarrow> Inl (Error ''A width was not defined for a CardLayout.'')
         | Some w \<Rightarrow>
             (case cfg_height config of
                None \<Rightarrow> Inl (Error ''A height was not defined for a CardLayout.'')
              | Some h \<Rightarrow>
                  Inr \<lparr> x = orElse (cfg_x config) 0, y = orElse (cfg_y config) 0,
                        width = w, height = h, scaleX = 1, scaleY = 1,
                        rotation = orElse (cfg_rotation config) 0, opacity = 1,
                        visible = True,
                        absolutePosition =
                          (orElse (cfg_x config) 0, orElse (cfg_y config) 0),
                        align = this_align, reverse = this_reverse,
                        origRotation = this_origRotation, empathy = this_empathy,
                        children = [] \<rparr>))"

subsection \<open>The centre of a rotated container\<close>

text \<open>
  \<open>getAbsoluteCenterPos\<close>: the four updates of \<open>pos\<close> in the order of the source,
  with \<open>rot = (-origRotation / 180) * Math.PI\<close>.
\<close>

definition getAbsoluteCenterPos :: "CardLayout \<Rightarrow> Vector2d" where
  "getAbsoluteCenterPos this =
     (let pos = absolutePosition this;
          w = width this;
          h = height this;
          rot = (- origRotation this / 180) * pi;
          pos = (fst pos + (w / 2) * cos rot, snd pos);
          pos = (fst pos, snd pos - (w / 2) * sin rot);
          pos = (fst pos + (h / 2) * sin rot, snd pos);
          pos = (fst pos, snd pos - (h / 2) * - cos rot)
      in pos)"

section \<open>The environment of \<open>doLayout\<close>\<close>

text \<open>
  What \<open>doLayout\<close> reads from \<open>globals\<close>: \<open>globals.lobby.settings.keldonMode\<close>,
  \<open>globals.animateFast\<close>, \<open>globals.options.speedrun\<close>, \<open>globals.variant.suits\<close> and
  the map \<open>globals.elements.playStacks\<close>. The constant \<open>CARD_ANIMATION_LENGTH\<close> is
  imported from a module that is not part of the sources at hand; its value is a
  parameter here. A suit is identified by its name.
\<close>

type_synonym Suit = string

record Globals =
  keldonMode :: bool
  animateFast :: bool
  speedrun :: bool
  suits :: "Suit list"
  playStacks :: "Suit \<Rightarrow> PlayStack option"
  CARD_ANIMATION_LENGTH :: real

datatype Easing = EaseOut

text \<open>
  The two completion callbacks that \<open>doLayout\<close> passes as \<open>onFinish\<close>, as data: the
  callback of the layout tween, and the callback of the misplay tween, a closure over
  \<open>newX\<close> and \<open>scale\<close>.
\<close>

datatype OnFinish = LayoutOnFinish | MisplayOnFinish real real

text \<open>
  A division of JavaScript numbers whose divisor is not guarded: with a divisor that is
  not 0 the quotient is a number, with the divisor 0 it is \<open>NaN\<close> or an infinity, which
  is \<open>None\<close> here.
\<close>

definition quotient :: "real \<Rightarrow> real \<Rightarrow> real option" where
  "quotient a b = (if b = 0 then None else Some (a / b))"

text \<open>
  The target values of a tween. The target scale is \<open>None\<close> where the source passes a
  value that is not a number.
\<close>

record TweenConfig =
  duration :: real
  to_x :: real
  to_y :: real
  to_scale :: "real option"
  to_rotation :: real
  to_opacity :: real
  easing :: Easing
  onFinish :: OnFinish

text \<open>
  A tween of the animation driver: its handle, the \<open>cid\<close> of the node it drives, the
  configuration and the third argument of \<open>animate\<close>.
\<close>

record Tween =
  tween_handle :: nat
  tween_node :: nat
  tween_params :: TweenConfig
  tween_flag :: bool

text \<open>
  Calls into the card visual and the child that leave the layout code; the argument is
  the \<open>cid\<close> of the child.
\<close>

datatype Event =
    CheckSetDraggable nat
  | SetRaiseAndShadowOffset nat
  | StartedTweening nat
  | FinishedTweening nat

text \<open>
  The state outside the container: the tweens that are in flight, the next unused
  handle, and the calls made so far, oldest first.
\<close>

record Runtime =
  tweens :: "Tween list"
  nextHandle :: nat
  calls :: "Event list"

definition emit :: "Event list \<Rightarrow> Runtime \<Rightarrow> Runtime" where
  "emit evs rt = rt\<lparr>calls := calls rt @ evs\<rparr>"

text \<open>\<open>Konva.Tween.destroy()\<close>: the tween with that handle is no longer in flight.\<close>

definition destroy :: "nat \<Rightarrow> Runtime \<Rightarrow> Runtime" where
  "destroy h rt = rt\<lparr>tweens := filter (\<lambda>t. tween_handle t \<noteq> h) (tweens rt)\<rparr>"

text \<open>
  Modelled from the spec: \<open>animate\<close> of \<open>konvaHelpers\<close>, which is not part of the
  sources at hand. The spec's tween driver accepts a target, target property values, a
  duration, an easing and a completion callback, runs the tween machinery also when told
  to resolve at once, and the child's slot holds the handle of its active tween. So
  \<open>animate\<close> puts one new tween in flight and stores its handle in the slot of the node.
\<close>

definition animate ::
  "LayoutChild \<Rightarrow> TweenConfig \<Rightarrow> bool \<Rightarrow> Runtime \<Rightarrow> LayoutChild \<times> Runtime" where
  "animate node params flag rt =
     (node\<lparr>tween := Some (nextHandle rt)\<rparr>,
      rt\<lparr>tweens := tweens rt @
            [\<lparr>tween_handle = nextHandle rt, tween_node = cid node,
              tween_params = params, tween_flag = flag\<rparr>],
         nextHandle := Suc (nextHandle rt)\<rparr>)"

section \<open>\<open>doLayout\<close>\<close>

text \<open>The first loop: the width the scaled children take up, without spacing.\<close>

fun usedWidthLoop :: "real \<Rightarrow> LayoutChild list \<Rightarrow> real \<Rightarrow> real" where
  "usedWidthLoop handHeight [] uw = uw"
| "usedWidthLoop handHeight (layoutChild # rest) uw =
     (if height layoutChild \<le> 0 then usedWidthLoop handHeight rest uw
      else let scale = handHeight / height layoutChild
           in usedWidthLoop handHeight rest (uw + scale * width layoutChild))"

text \<open>
  The spacing. \<open>spacingDivisor\<close> is the divisor \<open>numCards - 1\<close> of the one division,
  present when the guard \<open>numCards > 1\<close> lets the division run. \<open>numCards - 1\<close> is a
  subtraction of JavaScript numbers, so it is \<open>-1\<close> for no cards.
\<close>

definition spacingDivisor :: "nat \<Rightarrow> real option" where
  "spacingDivisor numCards = (if numCards > 1 then Some (real numCards - 1) else None)"

definition spacingBetweenCards :: "Globals \<Rightarrow> real \<Rightarrow> real \<Rightarrow> nat \<Rightarrow> real" where
  "spacingBetweenCards g handWidth uw numCards =
     (let spacing = (case spacingDivisor numCards of
                       Some d \<Rightarrow> (handWidth - uw) / d
                     | None \<Rightarrow> 0);
          maxSpacingBetweenCards = (if keldonMode g then 0.025 * uw else 0.04 * uw)
      in if spacing > maxSpacingBetweenCards then maxSpacingBetweenCards else spacing)"

text \<open>The cursor before the second loop.\<close>

definition startX :: "CardLayout \<Rightarrow> real \<Rightarrow> real \<Rightarrow> real" where
  "startX this uw0 spacing =
     (let handWidth = width this;
          numCards = length (children this);
          uw = uw0 + spacing * (real numCards - 1);
          start = (if align this = ''center'' \<and> uw < handWidth
                   then (handWidth - uw) / 2 else 0)
      in if reverse this then handWidth - start else start)"

text \<open>
  The play stack of a misplayed card:
  \<open>globals.elements.playStacks.get(globals.variant.suits[suitIndex])\<close>. A \<open>null\<close> suit
  index, an index outside the suits and a suit without play stack all give \<open>undefined\<close>.
\<close>

definition misplayPlayStack :: "Globals \<Rightarrow> LayoutChild \<Rightarrow> PlayStack option" where
  "misplayPlayStack g layoutChild =
     (case suitIndex layoutChild of
        None \<Rightarrow> None
      | Some i \<Rightarrow> if i < length (suits g) then playStacks g (suits g ! i) else None)"

text \<open>The closure \<open>animateToLayout\<close>.\<close>

definition animateToLayout ::
  "Globals \<Rightarrow> LayoutChild \<Rightarrow> real \<Rightarrow> real \<Rightarrow> Runtime \<Rightarrow> LayoutChild \<times> Runtime" where
  "animateToLayout g layoutChild newX scale rt =
     animate layoutChild
       \<lparr>duration = CARD_ANIMATION_LENGTH g, to_x = newX, to_y = 0, to_scale = Some scale,
        to_rotation = 0, to_opacity = 1, easing = EaseOut, onFinish = LayoutOnFinish\<rparr>
       (\<not> speedrun g) rt"

text \<open>What the two \<open>onFinish\<close> callbacks do when the driver calls them.\<close>

definition runOnFinish ::
  "Globals \<Rightarrow> OnFinish \<Rightarrow> LayoutChild \<Rightarrow> Runtime \<Rightarrow> LayoutChild \<times> Runtime" where
  "runOnFinish g callback layoutChild rt =
     (case callback of
        LayoutOnFinish \<Rightarrow>
          (layoutChild,
           emit [FinishedTweening (cid layoutChild), CheckSetDraggable (cid layoutChild)] rt)
      | MisplayOnFinish newX scale \<Rightarrow>
          animateToLayout g (layoutChild\<lparr>rotation := 360\<rparr>) newX scale rt)"

text \<open>
  The body of the second loop for one child; \<open>cursor\<close> is the local \<open>x\<close> of the source: the child after it, the
  cursor after it, and the state outside. Calling \<open>getAbsolutePosition\<close> on an
  \<open>undefined\<close> play stack is a \<open>TypeError\<close>. The divisions by the height of the
  child run only for a positive height; the division by \<open>handHeight\<close> in the misplay
  branch is not guarded.
\<close>

definition placeChild ::
  "Globals \<Rightarrow> CardLayout \<Rightarrow> real \<Rightarrow> real \<Rightarrow> LayoutChild \<Rightarrow> Runtime
     \<Rightarrow> Error + (LayoutChild \<times> real \<times> Runtime)" where
  "placeChild g this spacing cursor layoutChild0 rt0 =
     (let handHeight = height this;
          layoutChild = layoutChild0\<lparr>visible := True\<rparr>
      in if height layoutChild \<le> 0 then Inr (layoutChild, cursor, rt0)
         else
           let scale = handHeight / height layoutChild;
               (layoutChild, rt) =
                 (case tween layoutChild of
                    None \<Rightarrow> (layoutChild, rt0)
                  | Some h \<Rightarrow> (layoutChild\<lparr>tween := None\<rparr>, destroy h rt0));
               newX = cursor - (if reverse this then scale * width layoutChild else 0);
               cursor' = cursor + (scale * width layoutChild + spacing)
                                   * (if reverse this then - 1 else 1)
           in if animateFast g then
                Inr (layoutChild\<lparr>x := newX, y := 0, scaleX := scale, scaleY := scale,
                       rotation := 0, opacity := 1, doMisplayAnimation := False\<rparr>,
                     cursor',
                     emit [CheckSetDraggable (cid layoutChild),
                           SetRaiseAndShadowOffset (cid layoutChild)] rt)
              else
                let rt = emit [StartedTweening (cid layoutChild),
                               SetRaiseAndShadowOffset (cid layoutChild)] rt
                in if doMisplayAnimation layoutChild then
                     let layoutChild = layoutChild\<lparr>doMisplayAnimation := False\<rparr>
                     in case misplayPlayStack g layoutChild of
                          None \<Rightarrow> Inl TypeError
                        | Some playStack \<Rightarrow>
                            let pos = absolutePosition this;
                                playStackPos = absolutePosition playStack;
                                (layoutChild, rt) =
                                  animate layoutChild
                                    \<lparr>duration = CARD_ANIMATION_LENGTH g,
                                     to_x = fst playStackPos - fst pos,
                                     to_y = snd playStackPos - snd pos,
                                     to_scale =
                                       quotient (height playStack * scale) handHeight,
                                     to_rotation = 0, to_opacity = 1, easing = EaseOut,
                                     onFinish = MisplayOnFinish newX scale\<rparr>
                                    (\<not> speedrun g) rt
                            in Inr (layoutChild, cursor', rt)
                   else
                     let (layoutChild, rt) = animateToLayout g layoutChild newX scale rt
                     in Inr (layoutChild, cursor', rt))"

text \<open>The second loop.\<close>

fun placeLoop ::
  "Globals \<Rightarrow> CardLayout \<Rightarrow> real \<Rightarrow> real \<Rightarrow> LayoutChild list \<Rightarrow> Runtime
     \<Rightarrow> Error + (LayoutChild list \<times> Runtime)" where
  "placeLoop g this spacing cursor [] rt = Inr ([], rt)"
| "placeLoop g this spacing cursor (layoutChild # rest) rt =
     (case placeChild g this spacing cursor layoutChild rt of
        Inl e \<Rightarrow> Inl e
      | Inr (layoutChild', cursor', rt') \<Rightarrow>
          (case placeLoop g this spacing cursor' rest rt' of
             Inl e \<Rightarrow> Inl e
           | Inr (rest', rt'') \<Rightarrow> Inr (layoutChild' # rest', rt'')))"

text \<open>The values of the locals \<open>uw\<close> (after the first loop), of the spacing and of \<open>x\<close> before the second loop.\<close>

definition usedWidth :: "CardLayout \<Rightarrow> real" where
  "usedWidth this = usedWidthLoop (height this) (children this) 0"

definition layoutSpacing :: "Globals \<Rightarrow> CardLayout \<Rightarrow> real" where
  "layoutSpacing g this =
     spacingBetweenCards g (width this) (usedWidth this) (length (children this))"

definition layoutStartX :: "Globals \<Rightarrow> CardLayout \<Rightarrow> real" where
  "layoutStartX g this = startX this (usedWidth this) (layoutSpacing g this)"

definition doLayout :: "Globals \<Rightarrow> CardLayout \<Rightarrow> Runtime \<Rightarrow> Error + (CardLayout \<times> Runtime)" where
  "doLayout g this rt =
     (case placeLoop g this (layoutSpacing g this) (layoutStartX g this) (children this) rt of
        Inl e \<Rightarrow> Inl e
      | Inr (children', rt') \<Rightarrow> Inr (this\<lparr>children := children'\<rparr>, rt'))"

section \<open>Notions for stating the properties of \<open>doLayout\<close>\<close>

text \<open>
  The cursor after the loop body has run for one child: the \<open>continue\<close> for a child of
  non-positive height leaves it, the last statement of the body moves it.
\<close>

definition advance :: "CardLayout \<Rightarrow> real \<Rightarrow> real \<Rightarrow> LayoutChild \<Rightarrow> real" where
  "advance this spacing cursor lc =
     (if height lc \<le> 0 then cursor
      else cursor + (height this / height lc * width lc + spacing)
                      * (if reverse this then - 1 else 1))"

text \<open>The cursor when the second loop reaches the child at index \<open>i\<close>.\<close>

definition cursorAt :: "Globals \<Rightarrow> CardLayout \<Rightarrow> nat \<Rightarrow> real" where
  "cursorAt g this i =
     foldl (advance this (layoutSpacing g this)) (layoutStartX g this)
       (take i (children this))"

text \<open>The calls one pass makes for one child, and for all children in order.\<close>

definition childCalls :: "Globals \<Rightarrow> LayoutChild \<Rightarrow> Event list" where
  "childCalls g lc =
     (if height lc \<le> 0 then []
      else if animateFast g then [CheckSetDraggable (cid lc), SetRaiseAndShadowOffset (cid lc)]
      else [StartedTweening (cid lc), SetRaiseAndShadowOffset (cid lc)])"

definition passCalls :: "Globals \<Rightarrow> LayoutChild list \<Rightarrow> Event list" where
  "passCalls g cs = concat (map (childCalls g) cs)"

text \<open>The tweens in flight that drive the child with identity \<open>c\<close>.\<close>

definition liveTweens :: "Runtime \<Rightarrow> nat \<Rightarrow> Tween list" where
  "liveTweens rt c = filter (\<lambda>t. tween_node t = c) (tweens rt)"

text \<open>The tweens in flight once the tween in the slot of \<open>lc\<close> is destroyed.\<close>

definition afterDestroy :: "LayoutChild \<Rightarrow> Runtime \<Rightarrow> Tween list" where
  "afterDestroy lc rt =
     (case tween lc of None \<Rightarrow> tweens rt
      | Some h \<Rightarrow> filter (\<lambda>t. tween_handle t \<noteq> h) (tweens rt))"

text \<open>
  A well-formed state of children and driver: the children are different objects, the
  tweens in flight have different handles, every handle in use is below the next unused
  one, a tween that drives a child is the one in the slot of that child, and no handle is
  in the slots of two children.
\<close>

definition tweensConsistent :: "LayoutChild list \<Rightarrow> Runtime \<Rightarrow> bool" where
  "tweensConsistent cs rt \<longleftrightarrow>
     distinct (map cid cs)
   \<and> distinct (map tween_handle (tweens rt))
   \<and> (\<forall>t \<in> set (tweens rt). tween_handle t < nextHandle rt)
   \<and> (\<forall>lc \<in> set cs. case tween lc of None \<Rightarrow> True | Some h \<Rightarrow> h < nextHandle rt)
   \<and> (\<forall>lc \<in> set cs. \<forall>t \<in> set (tweens rt).
         tween_node t = cid lc \<longrightarrow> tween lc = Some (tween_handle t))
   \<and> (\<forall>a \<in> set cs. \<forall>b \<in> set cs.
         tween a \<noteq> None \<and> tween a = tween b \<longrightarrow> cid a = cid b)"

section \<open>The pace label\<close>

text \<open>
  \<open>onPaceOrPaceRiskChanged\<close> of the statistics labels. The label is a Konva text of which
  the text and the fill colour matter; the screen also records what was written to
  \<open>console.error\<close> and how often \<open>globals.layers.UI.batchDraw()\<close> ran. The pace is a
  whole number or \<open>null\<close>. The constant \<open>LABEL_COLOR\<close> comes from a module that is not
  part of the sources at hand and is a parameter.
\<close>

datatype PaceRisk = Zero | HighRisk | MediumRisk | LowRisk | Null

record Label =
  label_text :: string
  label_fill :: string

record Screen =
  paceNumberLabel :: "Label option"
  console :: "string list"
  batchDraws :: nat

record PaceData =
  pace :: "int option"
  paceRisk :: PaceRisk

text \<open>\<open>Number.prototype.toString\<close> on a whole number: its decimal digits.\<close>

fun digits :: "nat \<Rightarrow> string" where
  "digits n = (if n < 10 then [''0123456789'' ! n]
               else digits (n div 10) @ [''0123456789'' ! (n mod 10)])"

definition toString :: "int \<Rightarrow> string" where
  "toString n = (if n < 0 then ''-'' @ digits (nat (- n)) else digits (nat n))"

definition onPaceOrPaceRiskChanged :: "string \<Rightarrow> PaceData \<Rightarrow> Screen \<Rightarrow> Error + Screen" where
  "onPaceOrPaceRiskChanged LABEL_COLOR data screen =
     (case paceNumberLabel screen of
        None \<Rightarrow> Inl (Error ''paceNumberLabel is not initialized.'')
      | Some label \<Rightarrow>
          let (label, screen) =
                (case pace data of
                   None \<Rightarrow> (label\<lparr>label_text := ''-'', label_fill := LABEL_COLOR\<rparr>, screen)
                 | Some p \<Rightarrow>
                     let paceText = toString p;
                         paceText = (if p > 0 then ''+'' @ toString p else paceText);
                         label = label\<lparr>label_text := paceText\<rparr>
                     in case paceRisk data of
                          Zero \<Rightarrow> (label\<lparr>label_fill := ''#df1c2d''\<rparr>, screen)
                        | HighRisk \<Rightarrow> (label\<lparr>label_fill := ''#ef8c1d''\<rparr>, screen)
                        | MediumRisk \<Rightarrow> (label\<lparr>label_fill := ''#efef1d''\<rparr>, screen)
                        | LowRisk \<Rightarrow> (label\<lparr>label_fill := LABEL_COLOR\<rparr>, screen)
                        | Null \<Rightarrow>
                            (label,
                             screen\<lparr>console := console screen @
                               [''An invalid value of pace / risk was detected. Pace = ''
                                  @ toString p @ '', Risk = Null'']\<rparr>))
          in Inr (screen\<lparr>paceNumberLabel := Some label,
                         batchDraws := Suc (batchDraws screen)\<rparr>))"

section \<open>Example scenes\<close>

definition card :: "nat \<Rightarrow> real \<Rightarrow> real \<Rightarrow> LayoutChild" where
  "card i w h =
     \<lparr>x = 7, y = 9, width = w, height = h, scaleX = 2, scaleY = 2, rotation = 30,
      opacity = 0, visible = False, cid = i, tween = None, doMisplayAnimation = False,
      suitIndex = Some 0\<rparr>"

definition hand :: "real \<Rightarrow> real \<Rightarrow> LayoutChild list \<Rightarrow> CardLayout" where
  "hand w h cs =
     \<lparr>x = 20, y = 50, width = w, height = h, scaleX = 1, scaleY = 1, rotation = 0,
      opacity = 1, visible = True, absolutePosition = (20, 50), align = ''left'',
      reverse = False, origRotation = 0, empathy = False, children = cs\<rparr>"

definition redStack :: PlayStack where
  "redStack =
     \<lparr>x = 300, y = 200, width = 40, height = 60, scaleX = 1, scaleY = 1, rotation = 0,
      opacity = 1, visible = True, absolutePosition = (320, 250)\<rparr>"

definition animated :: Globals where
  "animated =
     \<lparr>keldonMode = False, animateFast = False, speedrun = False, suits = [''Red''],
      playStacks = (\<lambda>s. if s = ''Red'' then Some redStack else None),
      CARD_ANIMATION_LENGTH = 1 / 2\<rparr>"

definition instant :: Globals where
  "instant = animated\<lparr>animateFast := True\<rparr>"

definition idle :: Runtime where
  "idle = \<lparr>tweens = [], nextHandle = 0, calls = []\<rparr>"

definition redLabel :: Screen where
  "redLabel =
     \<lparr>paceNumberLabel = Some \<lparr>label_text = ''0'', label_fill = ''#df1c2d''\<rparr>,
      console = [], batchDraws = 0\<rparr>"

section \<open>Auxiliary lemmas\<close>

lemma usedWidthLoop_acc:
  "usedWidthLoop H cs uw = uw + usedWidthLoop H cs 0"
proof (induction cs arbitrary: uw)
  case Nil
  then show ?case by simp
next
  case (Cons c cs)
  show ?case
    using Cons.IH [of "uw + H / height c * width c"] Cons.IH [of "H / height c * width c"] Cons.IH [of uw]
    by (simp add: Let_def)
qed

lemma usedWidthLoop_sum:
  "usedWidthLoop H cs 0 =
     sum_list (map (\<lambda>lc. H / height lc * width lc) (filter (\<lambda>lc. 0 < height lc) cs))"
proof (induction cs)
  case Nil
  then show ?case by simp
next
  case (Cons c cs)
  then show ?case
    using usedWidthLoop_acc [of H cs "H / height c * width c"]
    by (simp add: Let_def not_le)
qed

lemma usedWidth_nonneg:
  assumes "0 \<le> height this" and "\<forall>lc \<in> set (children this). 0 \<le> width lc"
  shows "0 \<le> usedWidth this"
  unfolding usedWidth_def usedWidthLoop_sum
  using assms by (auto intro!: sum_list_nonneg)

lemma layoutSpacing_min:
  "1 < length (children this) \<Longrightarrow>
   layoutSpacing g this =
       min ((width this - usedWidth this) / (real (length (children this)) - 1))
           ((if keldonMode g then 0.025 else 0.04) * usedWidth this)"
  by (simp add: layoutSpacing_def spacingBetweenCards_def spacingDivisor_def Let_def min_def)



lemma placeChild_skipped:
  "height lc \<le> 0 \<Longrightarrow>
   placeChild g this spacing cursor lc rt = Inr (lc\<lparr>visible := True\<rparr>, cursor, rt)"
  by (simp add: placeChild_def Let_def)

lemma placeChild_frame:
  assumes "placeChild g this spacing cursor lc rt = Inr (lc', cursor', rt')"
  shows "cid lc' = cid lc \<and> width lc' = width lc \<and> height lc' = height lc
         \<and> visible lc' \<and> suitIndex lc' = suitIndex lc
         \<and> cursor' = advance this spacing cursor lc"
  using assms
  by (auto simp: placeChild_def Let_def advance_def animate_def animateToLayout_def
           split: if_splits option.splits prod.splits)

lemma placeLoop_length:
  "placeLoop g this spacing cursor cs rt = Inr (cs', rt') \<Longrightarrow> length cs' = length cs"
  by (induction cs arbitrary: cursor rt cs')
     (auto split: sum.splits prod.splits)

lemma placeLoop_nth:
  assumes "placeLoop g this spacing cursor cs rt = Inr (cs', rt')" and "i < length cs"
  shows "\<exists>r r'. placeChild g this spacing (foldl (advance this spacing) cursor (take i cs))
                  (cs ! i) r
             = Inr (cs' ! i, foldl (advance this spacing) cursor (take (Suc i) cs), r')"
  using assms
proof (induction cs arbitrary: cursor rt cs' i)
  case Nil
  then show ?case by simp
next
  case (Cons c cs)
  from Cons.prems(1) obtain c' cur1 rt1 rest' where
    step: "placeChild g this spacing cursor c rt = Inr (c', cur1, rt1)"
    and rest: "placeLoop g this spacing cur1 cs rt1 = Inr (rest', rt')"
    and cs': "cs' = c' # rest'"
    by (auto split: sum.splits prod.splits)
  from step have cur1: "cur1 = advance this spacing cursor c"
    by (simp add: placeChild_frame)
  show ?case
  proof (cases i)
    case 0
    with step cs' cur1 show ?thesis by auto
  next
    case (Suc j)
    with Cons.prems(2) have "j < length cs" by simp
    from Cons.IH [OF rest this] Suc cs' cur1 show ?thesis by simp
  qed
qed



lemma distinct_all_equal_short:
  assumes "distinct xs" and "\<And>a b. a \<in> set xs \<Longrightarrow> b \<in> set xs \<Longrightarrow> a = b"
  shows "length xs \<le> 1"
proof (cases xs)
  case Nil
  then show ?thesis by simp
next
  case (Cons a ys)
  show ?thesis
  proof (cases ys)
    case Nil
    with Cons show ?thesis by simp
  next
    case (Cons b zs)
    with \<open>xs = a # ys\<close> have "a = b" using assms(2) [of a b] by simp
    with Cons \<open>xs = a # ys\<close> assms(1) show ?thesis by simp
  qed
qed

lemma consistent_at_most_one:
  assumes "tweensConsistent cs rt" and "lc \<in> set cs"
  shows "length (liveTweens rt (cid lc)) \<le> 1"
proof -
  from assms(1) have d: "distinct (map tween_handle (tweens rt))"
    unfolding tweensConsistent_def by blast
  from assms have s: "\<And>t. t \<in> set (tweens rt) \<Longrightarrow> tween_node t = cid lc
        \<Longrightarrow> tween lc = Some (tween_handle t)"
    unfolding tweensConsistent_def by blast
  from d have "distinct (map tween_handle (liveTweens rt (cid lc)))"
    unfolding liveTweens_def by (rule distinct_map_filter)
  moreover have "a = b"
    if "a \<in> set (map tween_handle (liveTweens rt (cid lc)))"
      and "b \<in> set (map tween_handle (liveTweens rt (cid lc)))" for a b
  proof -
    from that obtain t u where "t \<in> set (tweens rt)" "tween_node t = cid lc" "a = tween_handle t"
      "u \<in> set (tweens rt)" "tween_node u = cid lc" "b = tween_handle u"
      unfolding liveTweens_def set_map set_filter by blast
    with s [of t] s [of u] show ?thesis by simp
  qed
  ultimately have "length (map tween_handle (liveTweens rt (cid lc))) \<le> 1"
    by (rule distinct_all_equal_short)
  then show ?thesis by simp
qed



lemma placeChild_fast_tweens:
  assumes "placeChild g this spacing cursor lc rt = Inr (lc', cursor', rt')"
    and "0 < height lc" and "animateFast g"
  shows "tween lc' = None \<and> tweens rt' = afterDestroy lc rt \<and> nextHandle rt' = nextHandle rt"
  using assms
  by (auto simp add: placeChild_def Let_def afterDestroy_def destroy_def emit_def
           split: option.splits prod.splits)

lemma placeChild_animated_tweens:
  assumes "placeChild g this spacing cursor lc rt = Inr (lc', cursor', rt')"
    and "0 < height lc" and "\<not> animateFast g"
  shows "tween lc' = Some (nextHandle rt) \<and> nextHandle rt' = Suc (nextHandle rt)
       \<and> (\<exists>t. tweens rt' = afterDestroy lc rt @ [t]
              \<and> tween_handle t = nextHandle rt \<and> tween_node t = cid lc)"
  using assms
  by (auto simp add: placeChild_def Let_def afterDestroy_def destroy_def emit_def
        animate_def animateToLayout_def
           split: option.splits prod.splits if_splits)



lemma tweensConsistentI:
  assumes "distinct (map cid cs)"
    and "distinct (map tween_handle (tweens rt))"
    and "\<And>t. t \<in> set (tweens rt) \<Longrightarrow> tween_handle t < nextHandle rt"
    and "\<And>lc h. lc \<in> set cs \<Longrightarrow> tween lc = Some h \<Longrightarrow> h < nextHandle rt"
    and "\<And>lc t. lc \<in> set cs \<Longrightarrow> t \<in> set (tweens rt) \<Longrightarrow> tween_node t = cid lc
           \<Longrightarrow> tween lc = Some (tween_handle t)"
    and "\<And>a b h. a \<in> set cs \<Longrightarrow> b \<in> set cs \<Longrightarrow> tween a = Some h \<Longrightarrow> tween b = Some h
           \<Longrightarrow> cid a = cid b"
  shows "tweensConsistent cs rt"
proof -
  have "case tween lc of None \<Rightarrow> True | Some h \<Rightarrow> h < nextHandle rt" if "lc \<in> set cs" for lc
    using assms(4) [OF that] by (cases "tween lc") simp_all
  moreover have "cid a = cid b"
    if "a \<in> set cs" and "b \<in> set cs" and "tween a \<noteq> None \<and> tween a = tween b" for a b
  proof -
    from that(3) obtain h where h: "tween a = Some h" by blast
    with that(3) have "tween b = Some h" by simp
    with assms(6) [OF that(1,2) h] show ?thesis by blast
  qed
  ultimately show ?thesis
    unfolding tweensConsistent_def using assms(1,2,3,5) by blast
qed

lemma consistentD_cids: "tweensConsistent cs rt \<Longrightarrow> distinct (map cid cs)"
  unfolding tweensConsistent_def by blast

lemma consistentD_handles: "tweensConsistent cs rt \<Longrightarrow> distinct (map tween_handle (tweens rt))"
  unfolding tweensConsistent_def by blast

lemma consistentD_fresh:
  "tweensConsistent cs rt \<Longrightarrow> t \<in> set (tweens rt) \<Longrightarrow> tween_handle t < nextHandle rt"
  unfolding tweensConsistent_def by blast

lemma consistentD_slot_fresh:
  assumes "tweensConsistent cs rt" and "lc \<in> set cs" and "tween lc = Some h"
  shows "h < nextHandle rt"
proof -
  from assms(1) have "\<forall>lc \<in> set cs. case tween lc of None \<Rightarrow> True | Some h \<Rightarrow> h < nextHandle rt"
    unfolding tweensConsistent_def by blast
  with assms(2) have "case tween lc of None \<Rightarrow> True | Some h \<Rightarrow> h < nextHandle rt" by blast
  with assms(3) show ?thesis by simp
qed

lemma consistentD_slot:
  "tweensConsistent cs rt \<Longrightarrow> lc \<in> set cs \<Longrightarrow> t \<in> set (tweens rt)
     \<Longrightarrow> tween_node t = cid lc \<Longrightarrow> tween lc = Some (tween_handle t)"
  unfolding tweensConsistent_def by blast

lemma consistentD_owner:
  assumes "tweensConsistent cs rt" and "a \<in> set cs" and "b \<in> set cs"
    and "tween a = Some h" and "tween b = Some h"
  shows "cid a = cid b"
proof -
  from assms(1) have "\<forall>a \<in> set cs. \<forall>b \<in> set cs.
         tween a \<noteq> None \<and> tween a = tween b \<longrightarrow> cid a = cid b"
    unfolding tweensConsistent_def by blast
  moreover from assms(4,5) have "tween a \<noteq> None \<and> tween a = tween b" by simp
  ultimately show ?thesis using assms(2,3) by blast
qed

lemma afterDestroy_subset: "set (afterDestroy lc rt) \<subseteq> set (tweens rt)"
  by (cases "tween lc") (auto simp: afterDestroy_def)

lemma afterDestroy_distinct:
  "distinct (map tween_handle (tweens rt)) \<Longrightarrow> distinct (map tween_handle (afterDestroy lc rt))"
  by (cases "tween lc") (simp_all add: afterDestroy_def distinct_map_filter)

lemma afterDestroy_no_target:
  assumes "tweensConsistent cs rt" and "lc \<in> set cs" and "t \<in> set (afterDestroy lc rt)"
  shows "tween_node t \<noteq> cid lc"
proof
  assume n: "tween_node t = cid lc"
  from assms(3) afterDestroy_subset have t: "t \<in> set (tweens rt)" by blast
  from consistentD_slot [OF assms(1,2) t n] have "tween lc = Some (tween_handle t)" .
  with assms(3) show False by (simp add: afterDestroy_def)
qed

lemma other_cid:
  assumes "distinct (map cid (F @ lc # R))" and "c \<in> set F \<union> set R"
  shows "cid c \<noteq> cid lc"
proof
  assume "cid c = cid lc"
  with assms(2) have "cid lc \<in> cid ` (set F \<union> set R)" by (metis imageI)
  with assms(1) show False by auto
qed

lemma afterDestroy_others:
  assumes inv: "tweensConsistent (F @ lc # R) rt" and c: "c \<in> set F \<union> set R"
  shows "filter (\<lambda>t. tween_node t = cid c) (afterDestroy lc rt)
       = filter (\<lambda>t. tween_node t = cid c) (tweens rt)"
proof (cases "tween lc")
  case None
  then show ?thesis by (simp add: afterDestroy_def)
next
  case (Some h)
  have ne: "cid c \<noteq> cid lc"
    using other_cid [OF consistentD_cids [OF inv] c] .
  have "tween_handle t \<noteq> h" if "t \<in> set (tweens rt)" and "tween_node t = cid c" for t
  proof
    assume "tween_handle t = h"
    moreover from c have cin: "c \<in> set (F @ lc # R)" by auto
    from consistentD_slot [OF inv cin that] have "tween c = Some (tween_handle t)" .
    ultimately have "tween c = Some h" by simp
    moreover have "lc \<in> set (F @ lc # R)" by simp
    ultimately have "cid c = cid lc"
      using consistentD_owner [OF inv cin _ _ Some] by blast
    with ne show False by simp
  qed
  then have "filter (\<lambda>t. tween_node t = cid c) (filter (\<lambda>t. tween_handle t \<noteq> h) (tweens rt))
           = filter (\<lambda>t. tween_node t = cid c) (tweens rt)"
    unfolding filter_filter by (intro filter_cong) auto
  with Some show ?thesis by (simp add: afterDestroy_def)
qed



lemma consistent_skip:
  assumes inv: "tweensConsistent (F @ lc # R) rt"
    and same: "cid lc' = cid lc" "tween lc' = tween lc"
    and rt': "tweens rt' = tweens rt" "nextHandle rt' = nextHandle rt"
  shows "tweensConsistent (F @ lc' # R) rt'"
proof (rule tweensConsistentI)
  show "distinct (map cid (F @ lc' # R))"
    using consistentD_cids [OF inv] same by simp
  show "distinct (map tween_handle (tweens rt'))"
    using consistentD_handles [OF inv] rt' by simp
  show "tween_handle t < nextHandle rt'" if "t \<in> set (tweens rt')" for t
    using consistentD_fresh [OF inv] that rt' by simp
  have rep: "\<exists>d \<in> set (F @ lc # R). cid d = cid c \<and> tween d = tween c"
    if "c \<in> set (F @ lc' # R)" for c
    using that same by auto
  show "h < nextHandle rt'" if "c \<in> set (F @ lc' # R)" and "tween c = Some h" for c h
    using rep [OF that(1)] consistentD_slot_fresh [OF inv] that(2) rt' by metis
  show "tween c = Some (tween_handle t)"
    if "c \<in> set (F @ lc' # R)" and "t \<in> set (tweens rt')" and "tween_node t = cid c" for c t
    using rep [OF that(1)] consistentD_slot [OF inv] that(2,3) rt' by metis
  show "cid a = cid b"
    if "a \<in> set (F @ lc' # R)" and "b \<in> set (F @ lc' # R)"
      and "tween a = Some h" and "tween b = Some h" for a b h
    using rep [OF that(1)] rep [OF that(2)] consistentD_owner [OF inv] that(3,4) by metis
qed

lemma consistent_destroyed:
  assumes inv: "tweensConsistent (F @ lc # R) rt"
    and same: "cid lc' = cid lc" "tween lc' = None"
    and rt': "tweens rt' = afterDestroy lc rt" "nextHandle rt' = nextHandle rt"
  shows "tweensConsistent (F @ lc' # R) rt'"
proof (rule tweensConsistentI)
  have sub: "set (tweens rt') \<subseteq> set (tweens rt)"
    using afterDestroy_subset rt' by simp
  have lcin: "lc \<in> set (F @ lc # R)" by simp
  have other: "c \<in> set (F @ lc # R)" if "c \<in> set (F @ lc' # R)" and "c \<noteq> lc'" for c
    using that by auto
  show "distinct (map cid (F @ lc' # R))"
    using consistentD_cids [OF inv] same by simp
  show "distinct (map tween_handle (tweens rt'))"
    using afterDestroy_distinct [OF consistentD_handles [OF inv]] rt' by simp
  show "tween_handle t < nextHandle rt'" if "t \<in> set (tweens rt')" for t
    using consistentD_fresh [OF inv] that rt' sub by auto
  show "h < nextHandle rt'" if "c \<in> set (F @ lc' # R)" and "tween c = Some h" for c h
  proof (cases "c = lc'")
    case True
    with that same show ?thesis by simp
  next
    case False
    from consistentD_slot_fresh [OF inv other [OF that(1) False] that(2)] rt'
    show ?thesis by simp
  qed
  show "tween c = Some (tween_handle t)"
    if "c \<in> set (F @ lc' # R)" and "t \<in> set (tweens rt')" and "tween_node t = cid c" for c t
  proof (cases "c = lc'")
    case True
    from that(2) rt' have "t \<in> set (afterDestroy lc rt)" by simp
    from afterDestroy_no_target [OF inv lcin this] that(3) True same
    show ?thesis by simp
  next
    case False
    from that(2) sub have "t \<in> set (tweens rt)" by blast
    from consistentD_slot [OF inv other [OF that(1) False] this that(3)]
    show ?thesis .
  qed
  show "cid a = cid b"
    if "a \<in> set (F @ lc' # R)" and "b \<in> set (F @ lc' # R)"
      and "tween a = Some h" and "tween b = Some h" for a b h
  proof -
    from that(3) same have a: "a \<noteq> lc'" by auto
    from that(4) same have b: "b \<noteq> lc'" by auto
    from consistentD_owner [OF inv other [OF that(1) a] other [OF that(2) b] that(3,4)]
    show ?thesis .
  qed
qed

lemma consistent_animated:
  assumes inv: "tweensConsistent (F @ lc # R) rt"
    and same: "cid lc' = cid lc" "tween lc' = Some (nextHandle rt)"
    and rt': "tweens rt' = afterDestroy lc rt @ [t]" "nextHandle rt' = Suc (nextHandle rt)"
    and t: "tween_handle t = nextHandle rt" "tween_node t = cid lc"
  shows "tweensConsistent (F @ lc' # R) rt'"
proof (rule tweensConsistentI)
  have lcin: "lc \<in> set (F @ lc # R)" by simp
  have other: "c \<in> set (F @ lc # R) \<and> c \<in> set F \<union> set R"
    if "c \<in> set (F @ lc' # R)" and "c \<noteq> lc'" for c
    using that by auto
  have old: "u \<in> set (tweens rt) \<and> u \<in> set (afterDestroy lc rt)"
    if "u \<in> set (tweens rt')" and "u \<noteq> t" for u
    using that rt' afterDestroy_subset [of lc rt] by auto
  show "distinct (map cid (F @ lc' # R))"
    using consistentD_cids [OF inv] same by simp
  show "distinct (map tween_handle (tweens rt'))"
  proof -
    have "tween_handle u \<noteq> nextHandle rt" if "u \<in> set (afterDestroy lc rt)" for u
    proof -
      from that afterDestroy_subset have "u \<in> set (tweens rt)" by blast
      from consistentD_fresh [OF inv this] show ?thesis by simp
    qed
    then have "nextHandle rt \<notin> tween_handle ` set (afterDestroy lc rt)" by (metis imageE)
    then have "nextHandle rt \<notin> set (map tween_handle (afterDestroy lc rt))" by simp
    with afterDestroy_distinct [OF consistentD_handles [OF inv], of lc] rt' t
    show ?thesis by simp
  qed
  show "tween_handle u < nextHandle rt'" if "u \<in> set (tweens rt')" for u
  proof (cases "u = t")
    case True
    with t rt' show ?thesis by simp
  next
    case False
    from old [OF that False] consistentD_fresh [OF inv, of u] rt' show ?thesis by simp
  qed
  show "h < nextHandle rt'" if "c \<in> set (F @ lc' # R)" and "tween c = Some h" for c h
  proof (cases "c = lc'")
    case True
    with that same rt' show ?thesis by simp
  next
    case False
    from other [OF that(1) False] consistentD_slot_fresh [OF inv _ that(2)] rt'
    show ?thesis by simp
  qed
  show "tween c = Some (tween_handle u)"
    if "c \<in> set (F @ lc' # R)" and "u \<in> set (tweens rt')" and "tween_node u = cid c" for c u
  proof (cases "c = lc'")
    case True
    show ?thesis
    proof (cases "u = t")
      case True
      with \<open>c = lc'\<close> same t show ?thesis by simp
    next
      case False
      from old [OF that(2) False] have "u \<in> set (afterDestroy lc rt)" by simp
      from afterDestroy_no_target [OF inv lcin this] that(3) True same
      show ?thesis by simp
    qed
  next
    case False
    note c = other [OF that(1) False]
    have "u \<noteq> t"
    proof
      assume "u = t"
      with that(3) t have "cid c = cid lc" by simp
      with other_cid [OF consistentD_cids [OF inv], of c] c show False by simp
    qed
    from old [OF that(2) this] consistentD_slot [OF inv _ _ that(3)] c
    show ?thesis by simp
  qed
  show "cid a = cid b"
    if "a \<in> set (F @ lc' # R)" and "b \<in> set (F @ lc' # R)"
      and "tween a = Some h" and "tween b = Some h" for a b h
  proof (cases "a = lc'")
    case True
    note a = this
    show ?thesis
    proof (cases "b = lc'")
      case True
      with a show ?thesis by simp
    next
      case False
      from a that(3) same have "h = nextHandle rt" by simp
      with other [OF that(2) False] consistentD_slot_fresh [OF inv _ that(4)]
      show ?thesis by auto
    qed
  next
    case False
    note a = this
    show ?thesis
    proof (cases "b = lc'")
      case True
      with that(4) same have "h = nextHandle rt" by simp
      with other [OF that(1) a] consistentD_slot_fresh [OF inv _ that(3)]
      show ?thesis by auto
    next
      case False
      from other [OF that(1) a] other [OF that(2) False]
        consistentD_owner [OF inv _ _ that(3,4)]
      show ?thesis by simp
    qed
  qed
qed



lemma placeChild_consistent:
  assumes inv: "tweensConsistent (F @ lc # R) rt"
    and step: "placeChild g this spacing cursor lc rt = Inr (lc', cursor', rt')"
  shows "tweensConsistent (F @ lc' # R) rt'"
proof (cases "height lc \<le> 0")
  case True
  with step have "lc' = lc\<lparr>visible := True\<rparr>" "rt' = rt"
    by (simp_all add: placeChild_skipped)
  with inv show ?thesis by (intro consistent_skip [OF inv]) simp_all
next
  case False
  then have pos: "0 < height lc" by simp
  from placeChild_frame [OF step] have c: "cid lc' = cid lc" by simp
  show ?thesis
  proof (cases "animateFast g")
    case True
    from placeChild_fast_tweens [OF step pos True] c
    show ?thesis by (intro consistent_destroyed [OF inv]) simp_all
  next
    case False
    from placeChild_animated_tweens [OF step pos False] obtain t where
      "tween lc' = Some (nextHandle rt)" "nextHandle rt' = Suc (nextHandle rt)"
      "tweens rt' = afterDestroy lc rt @ [t]"
      "tween_handle t = nextHandle rt" "tween_node t = cid lc"
      by blast
    with c show ?thesis by (intro consistent_animated [OF inv]) simp_all
  qed
qed

lemma placeChild_others_live:
  assumes inv: "tweensConsistent (F @ lc # R) rt"
    and step: "placeChild g this spacing cursor lc rt = Inr (lc', cursor', rt')"
    and c: "c \<in> set F \<union> set R"
  shows "liveTweens rt' (cid c) = liveTweens rt (cid c)"
proof (cases "height lc \<le> 0")
  case True
  with step have "rt' = rt" by (simp add: placeChild_skipped)
  then show ?thesis by simp
next
  case False
  then have pos: "0 < height lc" by simp
  note keep = afterDestroy_others [OF inv c]
  show ?thesis
  proof (cases "animateFast g")
    case True
    from placeChild_fast_tweens [OF step pos True] keep
    show ?thesis by (simp add: liveTweens_def)
  next
    case False
    from placeChild_animated_tweens [OF step pos False] obtain t where
      t: "tweens rt' = afterDestroy lc rt @ [t]" "tween_node t = cid lc"
      by blast
    from other_cid [OF consistentD_cids [OF inv] c] have "cid lc \<noteq> cid c" by simp
    with t keep show ?thesis by (simp add: liveTweens_def)
  qed
qed

lemma afterDestroy_own:
  assumes inv: "tweensConsistent (F @ lc # R) rt"
  shows "filter (\<lambda>t. tween_node t = cid lc) (afterDestroy lc rt) = []"
proof -
  have "lc \<in> set (F @ lc # R)" by simp
  from afterDestroy_no_target [OF inv this] show ?thesis
    by (simp add: filter_empty_conv)
qed

lemma placeLoop_consistent:
  assumes "tweensConsistent (F @ cs) rt"
    and "placeLoop g this spacing cursor cs rt = Inr (cs', rt')"
  shows "tweensConsistent (F @ cs') rt'
       \<and> (\<forall>c \<in> set F. liveTweens rt' (cid c) = liveTweens rt (cid c))"
  using assms
proof (induction cs arbitrary: F cursor rt cs')
  case Nil
  then show ?case by simp
next
  case (Cons c cs)
  from Cons.prems(2) obtain c' cur1 rt1 rest' where
    step: "placeChild g this spacing cursor c rt = Inr (c', cur1, rt1)"
    and rest: "placeLoop g this spacing cur1 cs rt1 = Inr (rest', rt')"
    and cs': "cs' = c' # rest'"
    by (auto split: sum.splits prod.splits)
  from placeChild_consistent [OF Cons.prems(1) step]
  have inv1: "tweensConsistent ((F @ [c']) @ cs) rt1" by simp
  from Cons.IH [OF inv1 rest]
  have inv': "tweensConsistent ((F @ [c']) @ rest') rt'"
    and frame: "\<forall>d \<in> set (F @ [c']). liveTweens rt' (cid d) = liveTweens rt1 (cid d)"
    by simp_all
  have "liveTweens rt' (cid d) = liveTweens rt (cid d)" if "d \<in> set F" for d
  proof -
    from that have "d \<in> set F \<union> set cs" by simp
    from placeChild_others_live [OF Cons.prems(1) step this] frame that
    show ?thesis by simp
  qed
  with inv' cs' show ?case by simp
qed

lemma placeChild_calls:
  assumes "placeChild g this spacing cursor lc rt = Inr (lc', cursor', rt')"
  shows "calls rt' = calls rt @ childCalls g lc"
  using assms
  by (auto simp: placeChild_def Let_def childCalls_def animate_def animateToLayout_def
        emit_def destroy_def
      split: if_splits option.splits prod.splits)

lemma placeLoop_calls:
  "placeLoop g this spacing cursor cs rt = Inr (cs', rt')
     \<Longrightarrow> calls rt' = calls rt @ passCalls g cs"
proof (induction cs arbitrary: cursor rt cs')
  case Nil
  then show ?case by (simp add: passCalls_def)
next
  case (Cons c cs)
  from Cons.prems obtain c' cur1 rt1 rest' where
    step: "placeChild g this spacing cursor c rt = Inr (c', cur1, rt1)"
    and rest: "placeLoop g this spacing cur1 cs rt1 = Inr (rest', rt')"
    by (auto split: sum.splits prod.splits)
  from Cons.IH [OF rest] placeChild_calls [OF step] show ?case
    by (simp add: passCalls_def)
qed

lemma placeChild_fast_total:
  "animateFast g \<Longrightarrow> \<exists>lc' cursor' rt'.
     placeChild g this spacing cursor lc rt = Inr (lc', cursor', rt')"
  by (simp add: placeChild_def Let_def split: option.splits prod.splits)

lemma placeLoop_fast_total:
  "animateFast g \<Longrightarrow> \<exists>cs' rt'. placeLoop g this spacing cursor cs rt = Inr (cs', rt')"
proof (induction cs arbitrary: cursor rt)
  case Nil
  then show ?case by simp
next
  case (Cons c cs)
  from placeChild_fast_total [OF Cons.prems] obtain c' cur1 rt1 where
    step: "placeChild g this spacing cursor c rt = Inr (c', cur1, rt1)" by blast
  from Cons.IH [OF Cons.prems] obtain rest' rt' where
    "placeLoop g this spacing cur1 cs rt1 = Inr (rest', rt')" by blast
  with step show ?case by simp
qed

lemma placeChild_fast_subset:
  assumes "placeChild g this spacing cursor lc rt = Inr (lc', cursor', rt')"
    and "animateFast g"
  shows "set (tweens rt') \<subseteq> set (tweens rt)"
proof (cases "height lc \<le> 0")
  case True
  with assms(1) show ?thesis by (simp add: placeChild_skipped)
next
  case False
  then have "0 < height lc" by simp
  from placeChild_fast_tweens [OF assms(1) this assms(2)] afterDestroy_subset [of lc rt]
  show ?thesis by simp
qed

lemma placeLoop_fast_subset:
  "placeLoop g this spacing cursor cs rt = Inr (cs', rt') \<Longrightarrow> animateFast g
     \<Longrightarrow> set (tweens rt') \<subseteq> set (tweens rt)"
proof (induction cs arbitrary: cursor rt cs')
  case Nil
  then show ?case by simp
next
  case (Cons c cs)
  from Cons.prems(1) obtain c' cur1 rt1 rest' where
    step: "placeChild g this spacing cursor c rt = Inr (c', cur1, rt1)"
    and rest: "placeLoop g this spacing cur1 cs rt1 = Inr (rest', rt')"
    by (auto split: sum.splits prod.splits)
  from Cons.IH [OF rest Cons.prems(2)] placeChild_fast_subset [OF step Cons.prems(2)]
  show ?case by blast
qed

lemma placeChild_nextHandle:
  assumes "placeChild g this spacing cursor lc rt = Inr (lc', cursor', rt')"
  shows "nextHandle rt \<le> nextHandle rt'"
  using assms
  by (auto simp: placeChild_def Let_def animate_def animateToLayout_def emit_def destroy_def
      split: if_splits option.splits prod.splits)

lemma placeLoop_steps:
  assumes "tweensConsistent (F @ cs) rt"
    and "placeLoop g this spacing cursor cs rt = Inr (cs', rt')"
    and "i < length cs"
  shows "\<exists>r r'. placeChild g this spacing (foldl (advance this spacing) cursor (take i cs))
                  (cs ! i) r
             = Inr (cs' ! i, foldl (advance this spacing) cursor (take (Suc i) cs), r')
           \<and> filter (\<lambda>t. tween_node t = cid (cs ! i)) (afterDestroy (cs ! i) r) = []
           \<and> liveTweens rt' (cid (cs ! i)) = liveTweens r' (cid (cs ! i))
           \<and> liveTweens r (cid (cs ! i)) = liveTweens rt (cid (cs ! i))
           \<and> nextHandle rt \<le> nextHandle r"
  using assms
proof (induction cs arbitrary: F cursor rt cs' i)
  case Nil
  then show ?case by simp
next
  case (Cons c cs)
  from Cons.prems(2) obtain c' cur1 rt1 rest' where
    step: "placeChild g this spacing cursor c rt = Inr (c', cur1, rt1)"
    and rest: "placeLoop g this spacing cur1 cs rt1 = Inr (rest', rt')"
    and cs': "cs' = c' # rest'"
    by (auto split: sum.splits prod.splits)
  from placeChild_frame [OF step] have cur1: "cur1 = advance this spacing cursor c"
    and cid: "cid c' = cid c" by simp_all
  from placeChild_consistent [OF Cons.prems(1) step]
  have inv1: "tweensConsistent ((F @ [c']) @ cs) rt1" by simp
  show ?case
  proof (cases i)
    case 0
    from placeLoop_consistent [OF inv1 rest] cid
    have "liveTweens rt' (cid c) = liveTweens rt1 (cid c)" by simp
    with step cs' cur1 0 afterDestroy_own [OF Cons.prems(1)] show ?thesis by auto
  next
    case (Suc j)
    with Cons.prems(3) have j: "j < length cs" by simp
    then have "cs ! j \<in> set F \<union> set cs" by simp
    from placeChild_others_live [OF Cons.prems(1) step this]
    have keep: "liveTweens rt1 (cid (cs ! j)) = liveTweens rt (cid (cs ! j))" .
    from Cons.IH [OF inv1 rest j] obtain r r' where
      "placeChild g this spacing (foldl (advance this spacing) cur1 (take j cs)) (cs ! j) r
         = Inr (rest' ! j, foldl (advance this spacing) cur1 (take (Suc j) cs), r')"
      "filter (\<lambda>t. tween_node t = cid (cs ! j)) (afterDestroy (cs ! j) r) = []"
      "liveTweens rt' (cid (cs ! j)) = liveTweens r' (cid (cs ! j))"
      "liveTweens r (cid (cs ! j)) = liveTweens rt1 (cid (cs ! j))"
      "nextHandle rt1 \<le> nextHandle r"
      by blast
    with placeChild_nextHandle [OF step] Suc cs' cur1 keep show ?thesis
      by (intro exI [of _ r] exI [of _ r']) simp
  qed
qed

lemma usedWidth_two: "usedWidth (hand 150 100 [card 0 100 100, card 1 100 100]) = 200"
  by (simp add: usedWidth_def hand_def card_def)

lemma usedWidthLoop_append:
  "usedWidthLoop H (as @ bs) uw = usedWidthLoop H bs (usedWidthLoop H as uw)"
  by (induction as arbitrary: uw) (simp_all add: Let_def)

lemma usedWidth_skip:
  assumes "children this = as @ c # bs" and "height c \<le> 0"
  shows "usedWidth this = usedWidth (this\<lparr>children := as @ bs\<rparr>)"
  using assms by (simp add: usedWidth_def usedWidthLoop_append)

lemma doLayout_nth:
  assumes "doLayout g this rt = Inr (this', rt')" and "i < length (children this)"
  shows "length (children this') = length (children this)
       \<and> (\<exists>r r'. placeChild g this (layoutSpacing g this) (cursorAt g this i)
                    (children this ! i) r
                 = Inr (children this' ! i, cursorAt g this (Suc i), r'))"
proof -
  from assms(1) obtain cs' where
    loop: "placeLoop g this (layoutSpacing g this) (layoutStartX g this) (children this) rt
             = Inr (cs', rt')"
    and this': "this' = this\<lparr>children := cs'\<rparr>"
    by (auto simp: doLayout_def split: sum.splits prod.splits)
  from placeLoop_length [OF loop] placeLoop_nth [OF loop assms(2)] this'
  show ?thesis by (simp add: cursorAt_def)
qed

lemma passCalls_fast:
  "animateFast g \<Longrightarrow> StartedTweening c \<notin> set (passCalls g cs)
     \<and> FinishedTweening c \<notin> set (passCalls g cs)"
  by (induction cs) (simp_all add: passCalls_def childCalls_def)

lemma passCalls_no_finished: "FinishedTweening c \<notin> set (passCalls g cs)"
  by (induction cs) (simp_all add: passCalls_def childCalls_def)

lemma passCalls_started:
  "\<not> animateFast g \<Longrightarrow> lc \<in> set cs \<Longrightarrow> 0 < height lc
     \<Longrightarrow> StartedTweening (cid lc) \<in> set (passCalls g cs)"
  by (induction cs) (auto simp: passCalls_def childCalls_def)

lemma doLayout_calls:
  assumes "doLayout g this rt = Inr (this', rt')"
  shows "calls rt' = calls rt @ passCalls g (children this)"
proof -
  from assms obtain cs' where
    "placeLoop g this (layoutSpacing g this) (layoutStartX g this) (children this) rt
       = Inr (cs', rt')"
    by (auto simp: doLayout_def split: sum.splits prod.splits)
  then show ?thesis by (rule placeLoop_calls)
qed

lemma doLayout_fast:
  assumes "animateFast g"
  shows "\<exists>this' rt'. doLayout g this rt = Inr (this', rt')
           \<and> set (tweens rt') \<subseteq> set (tweens rt)"
proof -
  from placeLoop_fast_total [OF assms] obtain cs' rt' where
    loop: "placeLoop g this (layoutSpacing g this) (layoutStartX g this) (children this) rt
       = Inr (cs', rt')"
    by blast
  from placeLoop_fast_subset [OF loop assms] loop show ?thesis
    by (simp add: doLayout_def)
qed

lemma doLayout_consistent:
  assumes "tweensConsistent (children this) rt" and "doLayout g this rt = Inr (this', rt')"
  shows "tweensConsistent (children this') rt'"
proof -
  from assms(2) obtain cs' where
    loop: "placeLoop g this (layoutSpacing g this) (layoutStartX g this) (children this) rt
             = Inr (cs', rt')"
    and this': "this' = this\<lparr>children := cs'\<rparr>"
    by (auto simp: doLayout_def split: sum.splits prod.splits)
  from assms(1) have "tweensConsistent ([] @ children this) rt" by simp
  from placeLoop_consistent [OF this loop] this' show ?thesis by simp
qed

lemma doLayout_steps:
  assumes "tweensConsistent (children this) rt" and "doLayout g this rt = Inr (this', rt')"
    and "i < length (children this)"
  shows "\<exists>r r'. placeChild g this (layoutSpacing g this) (cursorAt g this i)
                  (children this ! i) r
             = Inr (children this' ! i, cursorAt g this (Suc i), r')
           \<and> filter (\<lambda>t. tween_node t = cid (children this ! i))
                 (afterDestroy (children this ! i) r) = []
           \<and> liveTweens rt' (cid (children this ! i)) = liveTweens r' (cid (children this ! i))
           \<and> liveTweens r (cid (children this ! i)) = liveTweens rt (cid (children this ! i))
           \<and> nextHandle rt \<le> nextHandle r"
proof -
  from assms(2) obtain cs' where
    loop: "placeLoop g this (layoutSpacing g this) (layoutStartX g this) (children this) rt
             = Inr (cs', rt')"
    and this': "this' = this\<lparr>children := cs'\<rparr>"
    by (auto simp: doLayout_def split: sum.splits prod.splits)
  from assms(1) have "tweensConsistent ([] @ children this) rt" by simp
  from placeLoop_steps [OF this loop assms(3)] this' show ?thesis
    by (simp add: cursorAt_def)
qed

lemma doLayout_skipped_live:
  assumes inv: "tweensConsistent (children this) rt"
    and pass: "doLayout g this rt = Inr (this', rt')"
    and i: "i < length (children this)" and skip: "height (children this ! i) \<le> 0"
  shows "children this' ! i = (children this ! i)\<lparr>visible := True\<rparr>
       \<and> liveTweens rt' (cid (children this ! i)) = liveTweens rt (cid (children this ! i))"
proof -
  from doLayout_steps [OF inv pass i] obtain r r' where
    step: "placeChild g this (layoutSpacing g this) (cursorAt g this i) (children this ! i) r
             = Inr (children this' ! i, cursorAt g this (Suc i), r')"
    and live: "liveTweens rt' (cid (children this ! i)) = liveTweens r' (cid (children this ! i))"
    and before: "liveTweens r (cid (children this ! i)) = liveTweens rt (cid (children this ! i))"
    by blast
  from step skip have "children this' ! i = (children this ! i)\<lparr>visible := True\<rparr>" "r' = r"
    by (simp_all add: placeChild_skipped)
  with live before show ?thesis by simp
qed

lemma placeLoop_skip:
  assumes "height c \<le> 0"
  shows "placeLoop g this spacing cursor (as @ c # bs) rt =
     (case placeLoop g this spacing cursor (as @ bs) rt of
        Inl e \<Rightarrow> Inl e
      | Inr (cs', rt') \<Rightarrow>
          Inr (take (length as) cs' @ c\<lparr>visible := True\<rparr> # drop (length as) cs', rt'))"
proof (induction as arbitrary: cursor rt)
  case Nil
  from assms show ?case
    by (simp add: placeChild_skipped split: sum.splits prod.splits)
next
  case (Cons a as)
  show ?case
    by (simp add: Cons.IH split: sum.splits prod.splits)
qed

lemma doLayout_live_after:
  assumes inv: "tweensConsistent (children this) rt"
    and pass: "doLayout g this rt = Inr (this', rt')"
    and i: "i < length (children this)" and pos: "0 < height (children this ! i)"
  shows "cid (children this' ! i) = cid (children this ! i)
       \<and> height (children this' ! i) = height (children this ! i)
       \<and> (animateFast g \<longrightarrow> tween (children this' ! i) = None
             \<and> liveTweens rt' (cid (children this ! i)) = [])
       \<and> (\<not> animateFast g \<longrightarrow>
            (\<exists>t. liveTweens rt' (cid (children this ! i)) = [t]
               \<and> tween (children this' ! i) = Some (tween_handle t)
               \<and> nextHandle rt \<le> tween_handle t))"
proof -
  from doLayout_steps [OF inv pass i] obtain r r' where
    step: "placeChild g this (layoutSpacing g this) (cursorAt g this i) (children this ! i) r
             = Inr (children this' ! i, cursorAt g this (Suc i), r')"
    and none: "filter (\<lambda>t. tween_node t = cid (children this ! i))
                 (afterDestroy (children this ! i) r) = []"
    and live: "liveTweens rt' (cid (children this ! i)) = liveTweens r' (cid (children this ! i))"
    and mono: "nextHandle rt \<le> nextHandle r"
    by blast
  note frame = placeChild_frame [OF step]
  have fast: "tween (children this' ! i) = None
             \<and> liveTweens rt' (cid (children this ! i)) = []" if "animateFast g"
    using placeChild_fast_tweens [OF step pos that] none live by (simp add: liveTweens_def)
  have slow: "\<exists>t. liveTweens rt' (cid (children this ! i)) = [t]
               \<and> tween (children this' ! i) = Some (tween_handle t)
               \<and> nextHandle rt \<le> tween_handle t" if "\<not> animateFast g"
  proof -
    from placeChild_animated_tweens [OF step pos that] obtain t where
      t: "tween (children this' ! i) = Some (nextHandle r)"
      "tweens r' = afterDestroy (children this ! i) r @ [t]"
      "tween_handle t = nextHandle r" "tween_node t = cid (children this ! i)"
      by blast
    with none live mono show ?thesis by (simp add: liveTweens_def)
  qed
  from frame fast slow show ?thesis by blast
qed

lemma placeChild_misplay:
  assumes "placeChild g this spacing cursor lc rt = Inr (lc', cursor', rt')"
    and "0 < height lc" and "\<not> animateFast g" and "doMisplayAnimation lc"
  shows "\<exists>playStack. misplayPlayStack g lc = Some playStack
       \<and> \<not> doMisplayAnimation lc'
       \<and> tween lc' = Some (nextHandle rt)
       \<and> tweens rt' = afterDestroy lc rt @
           [\<lparr>tween_handle = nextHandle rt, tween_node = cid lc,
             tween_params =
               \<lparr>duration = CARD_ANIMATION_LENGTH g,
                to_x = fst (absolutePosition playStack) - fst (absolutePosition this),
                to_y = snd (absolutePosition playStack) - snd (absolutePosition this),
                to_scale = quotient (height playStack * (height this / height lc))
                             (height this),
                to_rotation = 0, to_opacity = 1, easing = EaseOut,
                onFinish = MisplayOnFinish
                  (cursor - (if reverse this then height this / height lc * width lc else 0))
                  (height this / height lc)\<rparr>,
             tween_flag = \<not> speedrun g\<rparr>]"
proof (cases "misplayPlayStack g lc")
  case None
  then have "misplayPlayStack g (lc\<lparr>visible := True, doMisplayAnimation := False\<rparr>) = None"
    "misplayPlayStack g (lc\<lparr>visible := True, tween := None, doMisplayAnimation := False\<rparr>) = None"
    by (simp_all add: misplayPlayStack_def)
  with assms show ?thesis
    by (simp add: placeChild_def Let_def split: option.splits prod.splits)
next
  case (Some playStack)
  then have "misplayPlayStack g (lc\<lparr>visible := True, doMisplayAnimation := False\<rparr>)
      = Some playStack"
    "misplayPlayStack g (lc\<lparr>visible := True, tween := None, doMisplayAnimation := False\<rparr>)
      = Some playStack"
    by (simp_all add: misplayPlayStack_def)
  with assms Some show ?thesis
    by (auto simp: placeChild_def Let_def afterDestroy_def destroy_def emit_def animate_def
        split: option.splits prod.splits)
qed

section \<open>Properties\<close>

text \<open>
  Claim C1. In a container with more than one child, the spacing between cards is
  \<open>(W - usedWidth) / (n - 1)\<close>, capped above by \<open>0.04 * usedWidth\<close>, or by
  \<open>0.025 * usedWidth\<close> in Keldon mode, where \<open>usedWidth\<close> adds up the scaled widths
  of the children of positive height only and \<open>n\<close> counts all children. There is no
  lower bound: for a container of non-negative height with children of non-negative
  width, a negative quotient is the spacing as it is.
\<close>

theorem spacing_formula:
  "1 < length (children this) \<Longrightarrow>
     usedWidth this =
       sum_list (map (\<lambda>lc. height this / height lc * width lc)
                   (filter (\<lambda>lc. 0 < height lc) (children this)))
   \<and> layoutSpacing g this =
       min ((width this - usedWidth this) / (real (length (children this)) - 1))
           ((if keldonMode g then 0.025 else 0.04) * usedWidth this)
   \<and> (0 \<le> height this \<and> (\<forall>lc \<in> set (children this). 0 \<le> width lc)
        \<and> (width this - usedWidth this) / (real (length (children this)) - 1) < 0
      \<longrightarrow> layoutSpacing g this =
            (width this - usedWidth this) / (real (length (children this)) - 1))"
proof (intro conjI impI)
  show "usedWidth this =
       sum_list (map (\<lambda>lc. height this / height lc * width lc)
                   (filter (\<lambda>lc. 0 < height lc) (children this)))"
    by (simp add: usedWidth_def usedWidthLoop_sum)
next
  assume "1 < length (children this)"
  then show "layoutSpacing g this =
       min ((width this - usedWidth this) / (real (length (children this)) - 1))
           ((if keldonMode g then 0.025 else 0.04) * usedWidth this)"
    by (rule layoutSpacing_min)
next
  assume n: "1 < length (children this)"
    and h: "0 \<le> height this \<and> (\<forall>lc \<in> set (children this). 0 \<le> width lc)
        \<and> (width this - usedWidth this) / (real (length (children this)) - 1) < 0"
  from h have "0 \<le> usedWidth this" by (simp add: usedWidth_nonneg)
  then have "0 \<le> (if keldonMode g then 0.025 else 0.04) * usedWidth this" by simp
  with h have "(width this - usedWidth this) / (real (length (children this)) - 1)
      \<le> (if keldonMode g then 0.025 else 0.04) * usedWidth this" by linarith
  then show "layoutSpacing g this =
            (width this - usedWidth this) / (real (length (children this)) - 1)"
    unfolding layoutSpacing_min [OF n] by (rule min_absorb1)
qed

theorem spacing_formula_witness:
  "1 < length (children (hand 150 100 [card 0 100 100, card 1 100 100]))
   \<and> 0 \<le> height (hand 150 100 [card 0 100 100, card 1 100 100])
   \<and> 0 \<le> width (card 0 100 100) \<and> 0 \<le> width (card 1 100 100)
   \<and> (150 - usedWidth (hand 150 100 [card 0 100 100, card 1 100 100]))
         / (real (length (children (hand 150 100 [card 0 100 100, card 1 100 100]))) - 1) < 0
   \<and> usedWidth (hand 150 100 [card 0 100 100, card 1 100 100]) = 200
   \<and> layoutSpacing animated (hand 150 100 [card 0 100 100, card 1 100 100]) = - 50"
  using spacing_formula [of "hand 150 100 [card 0 100 100, card 1 100 100]" animated]
  by (simp add: usedWidth_two) (simp add: hand_def card_def)

text \<open>
  Claim C2, as the code has it. Start from a well-formed state of children and driver and
  run two passes, the second without any tween of the first having completed. After each
  pass the state is well-formed again and no child has more than one tween in flight. For
  a child of positive height the second pass has destroyed what was in flight for it and
  cleared its slot before anything new is scheduled: in instant mode the slot is empty
  and no tween drives the child; in animated mode exactly one tween drives the child, its
  handle is in the slot, and it is none of the tweens that were in flight before the
  pass. A child of non-positive height is skipped: its slot and the tweens in flight for
  it are after the pass what they were before.
\<close>

theorem one_live_tween_per_child:
  assumes "tweensConsistent (children this) rt"
    and "doLayout g this rt = Inr (this1, rt1)"
    and "doLayout g2 this1 rt1 = Inr (this2, rt2)"
  shows "tweensConsistent (children this1) rt1 \<and> tweensConsistent (children this2) rt2
       \<and> (\<forall>lc \<in> set (children this1). length (liveTweens rt1 (cid lc)) \<le> 1)
       \<and> (\<forall>lc \<in> set (children this2). length (liveTweens rt2 (cid lc)) \<le> 1)
       \<and> (animateFast g2 \<longrightarrow>
            (\<forall>lc \<in> set (children this2). 0 < height lc \<longrightarrow>
               tween lc = None \<and> liveTweens rt2 (cid lc) = []))
       \<and> (\<not> animateFast g2 \<longrightarrow>
            (\<forall>lc \<in> set (children this2). 0 < height lc \<longrightarrow>
               (\<exists>t. liveTweens rt2 (cid lc) = [t] \<and> tween lc = Some (tween_handle t)
                  \<and> t \<notin> set (tweens rt1))))
       \<and> length (children this2) = length (children this1)
       \<and> (\<forall>i < length (children this1). height (children this1 ! i) \<le> 0 \<longrightarrow>
             children this2 ! i = (children this1 ! i)\<lparr>visible := True\<rparr>
           \<and> liveTweens rt2 (cid (children this1 ! i))
               = liveTweens rt1 (cid (children this1 ! i)))"
proof -
  note inv1 = doLayout_consistent [OF assms(1,2)]
  note inv2 = doLayout_consistent [OF inv1 assms(3)]
  have len: "length (children this2) = length (children this1)"
  proof (cases "children this1")
    case Nil
    with assms(3) show ?thesis by (auto simp: doLayout_def)
  next
    case (Cons a as)
    then have "0 < length (children this1)" by simp
    from doLayout_nth [OF assms(3) this] show ?thesis by simp
  qed
  have after: "(animateFast g2 \<longrightarrow> tween lc = None \<and> liveTweens rt2 (cid lc) = [])
      \<and> (\<not> animateFast g2 \<longrightarrow>
            (\<exists>t. liveTweens rt2 (cid lc) = [t] \<and> tween lc = Some (tween_handle t)
               \<and> t \<notin> set (tweens rt1)))"
    if lc: "lc \<in> set (children this2)" and pos: "0 < height lc" for lc
  proof -
    from lc obtain i where i: "i < length (children this2)" "lc = children this2 ! i"
      by (metis in_set_conv_nth)
    with len have i1: "i < length (children this1)" by simp
    from doLayout_nth [OF assms(3) i1] obtain r r' where
      "placeChild g2 this1 (layoutSpacing g2 this1) (cursorAt g2 this1 i) (children this1 ! i) r
         = Inr (children this2 ! i, cursorAt g2 this1 (Suc i), r')"
      by blast
    from placeChild_frame [OF this] i pos have pos1: "0 < height (children this1 ! i)"
      by simp
    note live = doLayout_live_after [OF inv1 assms(3) i1 pos1]
    have "t \<notin> set (tweens rt1)" if "nextHandle rt1 \<le> tween_handle t" for t
      using consistentD_fresh [OF inv1, of t] that by auto
    with live i show ?thesis by auto
  qed
  have skipped: "children this2 ! i = (children this1 ! i)\<lparr>visible := True\<rparr>
           \<and> liveTweens rt2 (cid (children this1 ! i))
               = liveTweens rt1 (cid (children this1 ! i))"
    if "i < length (children this1)" and "height (children this1 ! i) \<le> 0" for i
    using doLayout_skipped_live [OF inv1 assms(3) that] .
  from inv1 inv2 consistent_at_most_one [OF inv1] consistent_at_most_one [OF inv2] after
    len skipped
  show ?thesis by blast
qed

theorem one_live_tween_per_child_witness:
  "doLayout animated (hand 400 100 [card 0 100 100, card 1 100 0]) idle
     = Inr (hand 400 100 [(card 0 100 100)\<lparr>visible := True, tween := Some 0\<rparr>,
                          (card 1 100 0)\<lparr>visible := True\<rparr>],
            \<lparr>tweens = [\<lparr>tween_handle = 0, tween_node = 0,
                         tween_params = \<lparr>duration = 1 / 2, to_x = 0, to_y = 0,
                           to_scale = Some 1, to_rotation = 0, to_opacity = 1,
                           easing = EaseOut, onFinish = LayoutOnFinish\<rparr>,
                         tween_flag = True\<rparr>],
              nextHandle = 1,
              calls = [StartedTweening 0, SetRaiseAndShadowOffset 0]\<rparr>)
   \<and> doLayout animated
        (hand 400 100 [(card 0 100 100)\<lparr>visible := True, tween := Some 0\<rparr>,
                       (card 1 100 0)\<lparr>visible := True\<rparr>])
        \<lparr>tweens = [\<lparr>tween_handle = 0, tween_node = 0,
                     tween_params = \<lparr>duration = 1 / 2, to_x = 0, to_y = 0,
                       to_scale = Some 1, to_rotation = 0, to_opacity = 1,
                       easing = EaseOut, onFinish = LayoutOnFinish\<rparr>,
                     tween_flag = True\<rparr>],
          nextHandle = 1,
          calls = [StartedTweening 0, SetRaiseAndShadowOffset 0]\<rparr>
     = Inr (hand 400 100 [(card 0 100 100)\<lparr>visible := True, tween := Some 1\<rparr>,
                          (card 1 100 0)\<lparr>visible := True\<rparr>],
            \<lparr>tweens = [\<lparr>tween_handle = 1, tween_node = 0,
                         tween_params = \<lparr>duration = 1 / 2, to_x = 0, to_y = 0,
                           to_scale = Some 1, to_rotation = 0, to_opacity = 1,
                           easing = EaseOut, onFinish = LayoutOnFinish\<rparr>,
                         tween_flag = True\<rparr>],
              nextHandle = 2,
              calls = [StartedTweening 0, SetRaiseAndShadowOffset 0,
                       StartedTweening 0, SetRaiseAndShadowOffset 0]\<rparr>)
   \<and> doLayout instant
        (hand 400 100 [(card 0 100 100)\<lparr>visible := True, tween := Some 0\<rparr>,
                       (card 1 100 0)\<lparr>visible := True\<rparr>])
        \<lparr>tweens = [\<lparr>tween_handle = 0, tween_node = 0,
                     tween_params = \<lparr>duration = 1 / 2, to_x = 0, to_y = 0,
                       to_scale = Some 1, to_rotation = 0, to_opacity = 1,
                       easing = EaseOut, onFinish = LayoutOnFinish\<rparr>,
                     tween_flag = True\<rparr>],
          nextHandle = 1,
          calls = [StartedTweening 0, SetRaiseAndShadowOffset 0]\<rparr>
     = Inr (hand 400 100
              [(card 0 100 100)\<lparr>visible := True, x := 0, y := 0, scaleX := 1,
                  scaleY := 1, rotation := 0, opacity := 1\<rparr>,
               (card 1 100 0)\<lparr>visible := True\<rparr>],
            \<lparr>tweens = [], nextHandle = 1,
              calls = [StartedTweening 0, SetRaiseAndShadowOffset 0,
                       CheckSetDraggable 0, SetRaiseAndShadowOffset 0]\<rparr>)
   \<and> 0 < height ((card 0 100 100)\<lparr>visible := True, tween := Some 1\<rparr>)
   \<and> height ((card 1 100 0)\<lparr>visible := True\<rparr>) \<le> 0"
proof -
  have inv: "tweensConsistent (children (hand 400 100 [card 0 100 100, card 1 100 0])) idle"
    by (simp add: tweensConsistent_def hand_def card_def idle_def)
  have p1: "doLayout animated (hand 400 100 [card 0 100 100, card 1 100 0]) idle
     = Inr (hand 400 100 [(card 0 100 100)\<lparr>visible := True, tween := Some 0\<rparr>,
                          (card 1 100 0)\<lparr>visible := True\<rparr>],
            \<lparr>tweens = [\<lparr>tween_handle = 0, tween_node = 0,
                         tween_params = \<lparr>duration = 1 / 2, to_x = 0, to_y = 0,
                           to_scale = Some 1, to_rotation = 0, to_opacity = 1,
                           easing = EaseOut, onFinish = LayoutOnFinish\<rparr>,
                         tween_flag = True\<rparr>],
              nextHandle = 1,
              calls = [StartedTweening 0, SetRaiseAndShadowOffset 0]\<rparr>)"
    by (simp add: doLayout_def placeChild_def layoutStartX_def startX_def layoutSpacing_def
        usedWidth_def spacingBetweenCards_def spacingDivisor_def Let_def hand_def card_def
        animated_def idle_def emit_def animateToLayout_def animate_def)
  have p2: "doLayout animated
        (hand 400 100 [(card 0 100 100)\<lparr>visible := True, tween := Some 0\<rparr>,
                       (card 1 100 0)\<lparr>visible := True\<rparr>])
        \<lparr>tweens = [\<lparr>tween_handle = 0, tween_node = 0,
                     tween_params = \<lparr>duration = 1 / 2, to_x = 0, to_y = 0,
                       to_scale = Some 1, to_rotation = 0, to_opacity = 1,
                       easing = EaseOut, onFinish = LayoutOnFinish\<rparr>,
                     tween_flag = True\<rparr>],
          nextHandle = 1,
          calls = [StartedTweening 0, SetRaiseAndShadowOffset 0]\<rparr>
     = Inr (hand 400 100 [(card 0 100 100)\<lparr>visible := True, tween := Some 1\<rparr>,
                          (card 1 100 0)\<lparr>visible := True\<rparr>],
            \<lparr>tweens = [\<lparr>tween_handle = 1, tween_node = 0,
                         tween_params = \<lparr>duration = 1 / 2, to_x = 0, to_y = 0,
                           to_scale = Some 1, to_rotation = 0, to_opacity = 1,
                           easing = EaseOut, onFinish = LayoutOnFinish\<rparr>,
                         tween_flag = True\<rparr>],
              nextHandle = 2,
              calls = [StartedTweening 0, SetRaiseAndShadowOffset 0,
                       StartedTweening 0, SetRaiseAndShadowOffset 0]\<rparr>)"
    by (simp add: doLayout_def placeChild_def layoutStartX_def startX_def layoutSpacing_def
        usedWidth_def spacingBetweenCards_def spacingDivisor_def Let_def hand_def card_def
        animated_def emit_def animateToLayout_def animate_def destroy_def)
  have p3: "doLayout instant
        (hand 400 100 [(card 0 100 100)\<lparr>visible := True, tween := Some 0\<rparr>,
                       (card 1 100 0)\<lparr>visible := True\<rparr>])
        \<lparr>tweens = [\<lparr>tween_handle = 0, tween_node = 0,
                     tween_params = \<lparr>duration = 1 / 2, to_x = 0, to_y = 0,
                       to_scale = Some 1, to_rotation = 0, to_opacity = 1,
                       easing = EaseOut, onFinish = LayoutOnFinish\<rparr>,
                     tween_flag = True\<rparr>],
          nextHandle = 1,
          calls = [StartedTweening 0, SetRaiseAndShadowOffset 0]\<rparr>
     = Inr (hand 400 100
              [(card 0 100 100)\<lparr>visible := True, x := 0, y := 0, scaleX := 1,
                  scaleY := 1, rotation := 0, opacity := 1\<rparr>,
               (card 1 100 0)\<lparr>visible := True\<rparr>],
            \<lparr>tweens = [], nextHandle = 1,
              calls = [StartedTweening 0, SetRaiseAndShadowOffset 0,
                       CheckSetDraggable 0, SetRaiseAndShadowOffset 0]\<rparr>)"
    by (simp add: doLayout_def placeChild_def layoutStartX_def startX_def layoutSpacing_def
        usedWidth_def spacingBetweenCards_def spacingDivisor_def Let_def hand_def card_def
        instant_def animated_def emit_def destroy_def)
  have h: "0 < height ((card 0 100 100)\<lparr>visible := True, tween := Some 1\<rparr>)
      \<and> height ((card 1 100 0)\<lparr>visible := True\<rparr>) \<le> 0"
    by (simp add: card_def)
  from one_live_tween_per_child [OF inv p1 p2] one_live_tween_per_child [OF inv p1 p3]
    p1 p2 p3 h
  show ?thesis
    by (intro conjI) (simp_all only: simp_thms)
qed

text \<open>
  The claim as it was stated has the tween of each child destroyed and its slot cleared
  in every pass, and exactly one tween in flight after two passes. A child of height 0
  that holds tween 0 holds it after an animated pass, and the tween is still in flight;
  a child of height 0 without a tween has none in flight after two animated passes.
\<close>

theorem one_live_tween_per_child_counterexample:
  "tweensConsistent [(card 0 100 0)\<lparr>tween := Some 0\<rparr>]
     \<lparr>tweens = [\<lparr>tween_handle = 0, tween_node = 0,
                  tween_params = \<lparr>duration = 1 / 2, to_x = 0, to_y = 0,
                    to_scale = Some 1, to_rotation = 0, to_opacity = 1,
                    easing = EaseOut, onFinish = LayoutOnFinish\<rparr>,
                  tween_flag = True\<rparr>],
       nextHandle = 1, calls = []\<rparr>
   \<and> doLayout animated (hand 400 100 [(card 0 100 0)\<lparr>tween := Some 0\<rparr>])
       \<lparr>tweens = [\<lparr>tween_handle = 0, tween_node = 0,
                    tween_params = \<lparr>duration = 1 / 2, to_x = 0, to_y = 0,
                      to_scale = Some 1, to_rotation = 0, to_opacity = 1,
                      easing = EaseOut, onFinish = LayoutOnFinish\<rparr>,
                    tween_flag = True\<rparr>],
         nextHandle = 1, calls = []\<rparr>
     = Inr (hand 400 100 [(card 0 100 0)\<lparr>tween := Some 0, visible := True\<rparr>],
            \<lparr>tweens = [\<lparr>tween_handle = 0, tween_node = 0,
                         tween_params = \<lparr>duration = 1 / 2, to_x = 0, to_y = 0,
                           to_scale = Some 1, to_rotation = 0, to_opacity = 1,
                           easing = EaseOut, onFinish = LayoutOnFinish\<rparr>,
                         tween_flag = True\<rparr>],
              nextHandle = 1, calls = []\<rparr>)
   \<and> tween ((card 0 100 0)\<lparr>tween := Some 0, visible := True\<rparr>) \<noteq> None
   \<and> doLayout animated (hand 400 100 [card 0 100 0]) idle
     = Inr (hand 400 100 [(card 0 100 0)\<lparr>visible := True\<rparr>], idle)
   \<and> doLayout animated (hand 400 100 [(card 0 100 0)\<lparr>visible := True\<rparr>]) idle
     = Inr (hand 400 100 [(card 0 100 0)\<lparr>visible := True\<rparr>], idle)
   \<and> length (liveTweens idle (cid ((card 0 100 0)\<lparr>visible := True\<rparr>))) \<noteq> 1"
  by (simp add: tweensConsistent_def doLayout_def placeChild_def layoutStartX_def startX_def
        layoutSpacing_def usedWidth_def spacingBetweenCards_def spacingDivisor_def Let_def
        hand_def card_def animated_def idle_def liveTweens_def)

text \<open>
  Claim C3, as the code has it. A child \<open>c\<close> of non-positive natural height adds nothing
  to the used width of the first loop, but still counts in the number of cards, so in the
  divisor of the spacing. In the second loop it is made visible and the body ends at the
  \<open>continue\<close>: child, cursor and the state outside are otherwise as before. So the whole
  pass is the second loop over the other children alone, with the spacing and the
  starting cursor of the full container, and \<open>c\<close> put back in its place made visible:
  every other child lands where it would land if \<open>c\<close> were not in the list.
\<close>

theorem skipped_child_keeps_cursor:
  assumes "children this = as @ c # bs" and "height c \<le> 0"
  shows "usedWidth this = usedWidth (this\<lparr>children := as @ bs\<rparr>)
       \<and> layoutSpacing g this =
           spacingBetweenCards g (width this) (usedWidth (this\<lparr>children := as @ bs\<rparr>))
             (Suc (length (as @ bs)))
       \<and> placeChild g this spacing cursor c r = Inr (c\<lparr>visible := True\<rparr>, cursor, r)
       \<and> doLayout g this rt =
           (case placeLoop g this (layoutSpacing g this) (layoutStartX g this) (as @ bs) rt of
              Inl e \<Rightarrow> Inl e
            | Inr (cs', rt') \<Rightarrow>
                Inr (this\<lparr>children :=
                            take (length as) cs' @ c\<lparr>visible := True\<rparr> # drop (length as) cs'\<rparr>,
                     rt'))"
proof (intro conjI)
  show uw: "usedWidth this = usedWidth (this\<lparr>children := as @ bs\<rparr>)"
    using assms by (rule usedWidth_skip)
  show "layoutSpacing g this =
           spacingBetweenCards g (width this) (usedWidth (this\<lparr>children := as @ bs\<rparr>))
             (Suc (length (as @ bs)))"
    using assms(1) uw by (simp add: layoutSpacing_def)
  show "placeChild g this spacing cursor c r = Inr (c\<lparr>visible := True\<rparr>, cursor, r)"
    using assms(2) by (rule placeChild_skipped)
  show "doLayout g this rt =
           (case placeLoop g this (layoutSpacing g this) (layoutStartX g this) (as @ bs) rt of
              Inl e \<Rightarrow> Inl e
            | Inr (cs', rt') \<Rightarrow>
                Inr (this\<lparr>children :=
                            take (length as) cs' @ c\<lparr>visible := True\<rparr> # drop (length as) cs'\<rparr>,
                     rt'))"
    using assms(1) placeLoop_skip [OF assms(2), of g this "layoutSpacing g this"
        "layoutStartX g this" as bs rt]
    by (simp add: doLayout_def split: sum.splits prod.splits)
qed

theorem skipped_child_keeps_cursor_witness:
  "children (hand 400 100 [card 0 100 0, card 1 100 100])
     = [] @ card 0 100 0 # [card 1 100 100]
   \<and> height (card 0 100 0) \<le> 0
   \<and> usedWidth (hand 400 100 [card 0 100 0, card 1 100 100]) = 100
   \<and> layoutSpacing instant (hand 400 100 [card 0 100 0, card 1 100 100]) = 4
   \<and> layoutSpacing instant (hand 400 100 [card 1 100 100]) = 0
   \<and> placeChild instant (hand 400 100 [card 0 100 0, card 1 100 100]) 4 0 (card 0 100 0) idle
       = Inr ((card 0 100 0)\<lparr>visible := True\<rparr>, 0, idle)
   \<and> doLayout instant (hand 400 100 [card 0 100 0, card 1 100 100]) idle
       = Inr (hand 400 100
                [(card 0 100 0)\<lparr>visible := True\<rparr>,
                 (card 1 100 100)\<lparr>visible := True, x := 0, y := 0, scaleX := 1,
                    scaleY := 1, rotation := 0, opacity := 1\<rparr>],
              idle\<lparr>calls := [CheckSetDraggable 1, SetRaiseAndShadowOffset 1]\<rparr>)"
proof -
  have c: "children (hand 400 100 [card 0 100 0, card 1 100 100])
     = [] @ card 0 100 0 # [card 1 100 100]"
    by (simp add: hand_def)
  have h: "height (card 0 100 0) \<le> 0" by (simp add: card_def)
  have s: "layoutSpacing instant (hand 400 100 [card 1 100 100]) = 0"
    by (simp add: layoutSpacing_def usedWidth_def spacingBetweenCards_def spacingDivisor_def
        hand_def card_def instant_def animated_def)
  from skipped_child_keeps_cursor [OF c h, of instant 4 0 idle idle] c h s
  show ?thesis
    by (simp add: placeChild_def layoutStartX_def startX_def layoutSpacing_def
        usedWidth_def spacingBetweenCards_def spacingDivisor_def Let_def hand_def card_def
        instant_def animated_def idle_def emit_def)
qed

text \<open>
  The claim as it was stated has the cursor move on by the spacing after a child of
  non-positive height. In a hand of width 400 and height 100 with such a child in front
  of a card of 100 by 100 the spacing is 4 and the cursor starts at 0, so the card would
  be put at 4; the pass puts it at 0.
\<close>

theorem skipped_child_keeps_cursor_counterexample:
  "height (card 0 100 0) \<le> 0
   \<and> layoutStartX instant (hand 400 100 [card 0 100 0, card 1 100 100]) = 0
   \<and> layoutSpacing instant (hand 400 100 [card 0 100 0, card 1 100 100]) = 4
   \<and> doLayout instant (hand 400 100 [card 0 100 0, card 1 100 100]) idle
       = Inr (hand 400 100
                [(card 0 100 0)\<lparr>visible := True\<rparr>,
                 (card 1 100 100)\<lparr>visible := True, x := 0, y := 0, scaleX := 1,
                    scaleY := 1, rotation := 0, opacity := 1\<rparr>],
              idle\<lparr>calls := [CheckSetDraggable 1, SetRaiseAndShadowOffset 1]\<rparr>)
   \<and> layoutStartX instant (hand 400 100 [card 0 100 0, card 1 100 100])
         + (0 + layoutSpacing instant (hand 400 100 [card 0 100 0, card 1 100 100])) * 1
       \<noteq> x ((card 1 100 100)\<lparr>visible := True, x := 0, y := 0, scaleX := 1,
                    scaleY := 1, rotation := 0, opacity := 1\<rparr>)"
  by (simp add: doLayout_def placeChild_def layoutStartX_def startX_def layoutSpacing_def
        usedWidth_def spacingBetweenCards_def spacingDivisor_def Let_def hand_def card_def
        instant_def animated_def idle_def emit_def)

text \<open>
  Claim C4, as the code has it. In an animated pass over a well-formed state, take a child
  whose misplay flag is set. If its height is positive, the flag is cleared and the one
  tween in flight for it afterwards is the first phase: over \<open>CARD_ANIMATION_LENGTH\<close>
  with ease-out to the position of the play stack of the card's suit relative to the
  container (target plus the container's absolute position is the play stack's absolute
  position), to the scale \<open>(playStack.height() * scale) / handHeight\<close> with
  \<open>scale = handHeight / height\<close> (not a number for a container of height 0), to rotation
  0 and opacity 1. If its height is not positive, the child is skipped: the flag stays
  set and nothing is scheduled for it. The completion callback of the first phase sets
  the rotation of the child to 360 and then puts the layout tween towards
  \<open>(newX, 0)\<close> and \<open>scale\<close> in flight for it.
\<close>

theorem misplay_two_phase_animation:
  assumes "tweensConsistent (children this) rt"
    and "\<not> animateFast g"
    and "doLayout g this rt = Inr (this', rt')"
    and "i < length (children this)"
    and "doMisplayAnimation (children this ! i)"
  shows "(0 < height (children this ! i) \<longrightarrow>
           (\<exists>playStack h.
               misplayPlayStack g (children this ! i) = Some playStack
             \<and> \<not> doMisplayAnimation (children this' ! i)
             \<and> tween (children this' ! i) = Some h
             \<and> liveTweens rt' (cid (children this ! i)) =
                 [\<lparr>tween_handle = h, tween_node = cid (children this ! i),
                   tween_params =
                     \<lparr>duration = CARD_ANIMATION_LENGTH g,
                      to_x = fst (absolutePosition playStack) - fst (absolutePosition this),
                      to_y = snd (absolutePosition playStack) - snd (absolutePosition this),
                      to_scale =
                        quotient
                          (height playStack * (height this / height (children this ! i)))
                          (height this),
                      to_rotation = 0, to_opacity = 1, easing = EaseOut,
                      onFinish = MisplayOnFinish
                        (cursorAt g this i
                           - (if reverse this
                              then height this / height (children this ! i)
                                     * width (children this ! i)
                              else 0))
                        (height this / height (children this ! i))\<rparr>,
                   tween_flag = \<not> speedrun g\<rparr>]))
       \<and> (height (children this ! i) \<le> 0 \<longrightarrow>
             children this' ! i = (children this ! i)\<lparr>visible := True\<rparr>
           \<and> doMisplayAnimation (children this' ! i)
           \<and> liveTweens rt' (cid (children this ! i)) = liveTweens rt (cid (children this ! i)))
       \<and> (\<forall>newX scale lc r.
             runOnFinish g (MisplayOnFinish newX scale) lc r =
               animate (lc\<lparr>rotation := 360\<rparr>)
                 \<lparr>duration = CARD_ANIMATION_LENGTH g, to_x = newX, to_y = 0,
                  to_scale = Some scale, to_rotation = 0, to_opacity = 1, easing = EaseOut,
                  onFinish = LayoutOnFinish\<rparr>
                 (\<not> speedrun g) r
           \<and> rotation (fst (runOnFinish g (MisplayOnFinish newX scale) lc r)) = 360
           \<and> tweens (snd (runOnFinish g (MisplayOnFinish newX scale) lc r)) =
               tweens r @
                 [\<lparr>tween_handle = nextHandle r, tween_node = cid lc,
                   tween_params =
                     \<lparr>duration = CARD_ANIMATION_LENGTH g, to_x = newX, to_y = 0,
                      to_scale = Some scale, to_rotation = 0, to_opacity = 1,
                      easing = EaseOut, onFinish = LayoutOnFinish\<rparr>,
                   tween_flag = \<not> speedrun g\<rparr>])"
proof (intro conjI impI)
  assume pos: "0 < height (children this ! i)"
  from doLayout_steps [OF assms(1,3,4)] obtain r r' where
    step: "placeChild g this (layoutSpacing g this) (cursorAt g this i) (children this ! i) r
             = Inr (children this' ! i, cursorAt g this (Suc i), r')"
    and none: "filter (\<lambda>t. tween_node t = cid (children this ! i))
                 (afterDestroy (children this ! i) r) = []"
    and live: "liveTweens rt' (cid (children this ! i)) = liveTweens r' (cid (children this ! i))"
    by blast
  from placeChild_misplay [OF step pos assms(2,5)] obtain playStack where
    ps: "misplayPlayStack g (children this ! i) = Some playStack"
    and flag: "\<not> doMisplayAnimation (children this' ! i)"
    and slot: "tween (children this' ! i) = Some (nextHandle r)"
    and tw: "tweens r' = afterDestroy (children this ! i) r @
           [\<lparr>tween_handle = nextHandle r, tween_node = cid (children this ! i),
             tween_params =
               \<lparr>duration = CARD_ANIMATION_LENGTH g,
                to_x = fst (absolutePosition playStack) - fst (absolutePosition this),
                to_y = snd (absolutePosition playStack) - snd (absolutePosition this),
                to_scale =
                  quotient (height playStack * (height this / height (children this ! i)))
                    (height this),
                to_rotation = 0, to_opacity = 1, easing = EaseOut,
                onFinish = MisplayOnFinish
                  (cursorAt g this i
                     - (if reverse this
                        then height this / height (children this ! i)
                               * width (children this ! i)
                        else 0))
                  (height this / height (children this ! i))\<rparr>,
             tween_flag = \<not> speedrun g\<rparr>]"
    by blast
  from tw none live have
    "liveTweens rt' (cid (children this ! i)) =
           [\<lparr>tween_handle = nextHandle r, tween_node = cid (children this ! i),
             tween_params =
               \<lparr>duration = CARD_ANIMATION_LENGTH g,
                to_x = fst (absolutePosition playStack) - fst (absolutePosition this),
                to_y = snd (absolutePosition playStack) - snd (absolutePosition this),
                to_scale =
                  quotient (height playStack * (height this / height (children this ! i)))
                    (height this),
                to_rotation = 0, to_opacity = 1, easing = EaseOut,
                onFinish = MisplayOnFinish
                  (cursorAt g this i
                     - (if reverse this
                        then height this / height (children this ! i)
                               * width (children this ! i)
                        else 0))
                  (height this / height (children this ! i))\<rparr>,
             tween_flag = \<not> speedrun g\<rparr>]"
    by (simp add: liveTweens_def)
  with ps flag slot show "\<exists>playStack h.
               misplayPlayStack g (children this ! i) = Some playStack
             \<and> \<not> doMisplayAnimation (children this' ! i)
             \<and> tween (children this' ! i) = Some h
             \<and> liveTweens rt' (cid (children this ! i)) =
                 [\<lparr>tween_handle = h, tween_node = cid (children this ! i),
                   tween_params =
                     \<lparr>duration = CARD_ANIMATION_LENGTH g,
                      to_x = fst (absolutePosition playStack) - fst (absolutePosition this),
                      to_y = snd (absolutePosition playStack) - snd (absolutePosition this),
                      to_scale =
                        quotient
                          (height playStack * (height this / height (children this ! i)))
                          (height this),
                      to_rotation = 0, to_opacity = 1, easing = EaseOut,
                      onFinish = MisplayOnFinish
                        (cursorAt g this i
                           - (if reverse this
                              then height this / height (children this ! i)
                                     * width (children this ! i)
                              else 0))
                        (height this / height (children this ! i))\<rparr>,
                   tween_flag = \<not> speedrun g\<rparr>]"
    by blast
next
  assume skip: "height (children this ! i) \<le> 0"
  note kept = doLayout_skipped_live [OF assms(1,3,4) skip]
  from kept show "children this' ! i = (children this ! i)\<lparr>visible := True\<rparr>" by simp
  from kept assms(5) show "doMisplayAnimation (children this' ! i)" by simp
  from kept show "liveTweens rt' (cid (children this ! i))
      = liveTweens rt (cid (children this ! i))" by simp
next
  show "\<forall>newX scale lc r.
             runOnFinish g (MisplayOnFinish newX scale) lc r =
               animate (lc\<lparr>rotation := 360\<rparr>)
                 \<lparr>duration = CARD_ANIMATION_LENGTH g, to_x = newX, to_y = 0,
                  to_scale = Some scale, to_rotation = 0, to_opacity = 1, easing = EaseOut,
                  onFinish = LayoutOnFinish\<rparr>
                 (\<not> speedrun g) r
           \<and> rotation (fst (runOnFinish g (MisplayOnFinish newX scale) lc r)) = 360
           \<and> tweens (snd (runOnFinish g (MisplayOnFinish newX scale) lc r)) =
               tweens r @
                 [\<lparr>tween_handle = nextHandle r, tween_node = cid lc,
                   tween_params =
                     \<lparr>duration = CARD_ANIMATION_LENGTH g, to_x = newX, to_y = 0,
                      to_scale = Some scale, to_rotation = 0, to_opacity = 1,
                      easing = EaseOut, onFinish = LayoutOnFinish\<rparr>,
                   tween_flag = \<not> speedrun g\<rparr>]"
    by (simp add: runOnFinish_def animateToLayout_def animate_def)
qed

theorem misplay_two_phase_animation_witness:
  "\<not> animateFast animated
   \<and> 0 < length (children (hand 400 100
          [(card 0 100 100)\<lparr>doMisplayAnimation := True\<rparr>,
           (card 1 100 0)\<lparr>doMisplayAnimation := True\<rparr>]))
   \<and> doMisplayAnimation ((card 0 100 100)\<lparr>doMisplayAnimation := True\<rparr>)
   \<and> 0 < height ((card 0 100 100)\<lparr>doMisplayAnimation := True\<rparr>)
   \<and> doMisplayAnimation ((card 1 100 0)\<lparr>doMisplayAnimation := True\<rparr>)
   \<and> height ((card 1 100 0)\<lparr>doMisplayAnimation := True\<rparr>) \<le> 0
   \<and> doLayout animated
        (hand 400 100 [(card 0 100 100)\<lparr>doMisplayAnimation := True\<rparr>,
                       (card 1 100 0)\<lparr>doMisplayAnimation := True\<rparr>]) idle
       = Inr (hand 400 100
                [(card 0 100 100)\<lparr>visible := True, tween := Some 0\<rparr>,
                 (card 1 100 0)\<lparr>doMisplayAnimation := True, visible := True\<rparr>],
              \<lparr>tweens = [\<lparr>tween_handle = 0, tween_node = 0,
                           tween_params = \<lparr>duration = 1 / 2, to_x = 300, to_y = 200,
                             to_scale = Some (3 / 5), to_rotation = 0, to_opacity = 1,
                             easing = EaseOut, onFinish = MisplayOnFinish 0 1\<rparr>,
                           tween_flag = True\<rparr>],
                nextHandle = 1,
                calls = [StartedTweening 0, SetRaiseAndShadowOffset 0]\<rparr>)
   \<and> rotation (fst (runOnFinish animated (MisplayOnFinish 0 1)
                       ((card 0 100 100)\<lparr>visible := True, tween := Some 0\<rparr>) idle)) = 360"
proof -
  have inv: "tweensConsistent
      (children (hand 400 100 [(card 0 100 100)\<lparr>doMisplayAnimation := True\<rparr>,
                               (card 1 100 0)\<lparr>doMisplayAnimation := True\<rparr>])) idle"
    by (simp add: tweensConsistent_def hand_def card_def idle_def)
  have slow: "\<not> animateFast animated" by (simp add: animated_def)
  have pass: "doLayout animated
        (hand 400 100 [(card 0 100 100)\<lparr>doMisplayAnimation := True\<rparr>,
                       (card 1 100 0)\<lparr>doMisplayAnimation := True\<rparr>]) idle
       = Inr (hand 400 100
                [(card 0 100 100)\<lparr>visible := True, tween := Some 0\<rparr>,
                 (card 1 100 0)\<lparr>doMisplayAnimation := True, visible := True\<rparr>],
              \<lparr>tweens = [\<lparr>tween_handle = 0, tween_node = 0,
                           tween_params = \<lparr>duration = 1 / 2, to_x = 300, to_y = 200,
                             to_scale = Some (3 / 5), to_rotation = 0, to_opacity = 1,
                             easing = EaseOut, onFinish = MisplayOnFinish 0 1\<rparr>,
                           tween_flag = True\<rparr>],
                nextHandle = 1,
                calls = [StartedTweening 0, SetRaiseAndShadowOffset 0]\<rparr>)"
    by (simp add: doLayout_def placeChild_def layoutStartX_def startX_def layoutSpacing_def
        usedWidth_def spacingBetweenCards_def spacingDivisor_def Let_def hand_def card_def
        animated_def idle_def emit_def animate_def misplayPlayStack_def redStack_def
        quotient_def)
  have i0: "0 < length (children (hand 400 100
          [(card 0 100 100)\<lparr>doMisplayAnimation := True\<rparr>,
           (card 1 100 0)\<lparr>doMisplayAnimation := True\<rparr>]))"
    by (simp add: hand_def)
  have i1: "1 < length (children (hand 400 100
          [(card 0 100 100)\<lparr>doMisplayAnimation := True\<rparr>,
           (card 1 100 0)\<lparr>doMisplayAnimation := True\<rparr>]))"
    by (simp add: hand_def)
  have f0: "doMisplayAnimation (children (hand 400 100
          [(card 0 100 100)\<lparr>doMisplayAnimation := True\<rparr>,
           (card 1 100 0)\<lparr>doMisplayAnimation := True\<rparr>]) ! 0)"
    by (simp add: hand_def)
  have f1: "doMisplayAnimation (children (hand 400 100
          [(card 0 100 100)\<lparr>doMisplayAnimation := True\<rparr>,
           (card 1 100 0)\<lparr>doMisplayAnimation := True\<rparr>]) ! 1)"
    by (simp add: hand_def)
  have rest: "doMisplayAnimation ((card 0 100 100)\<lparr>doMisplayAnimation := True\<rparr>)
   \<and> 0 < height ((card 0 100 100)\<lparr>doMisplayAnimation := True\<rparr>)
   \<and> doMisplayAnimation ((card 1 100 0)\<lparr>doMisplayAnimation := True\<rparr>)
   \<and> height ((card 1 100 0)\<lparr>doMisplayAnimation := True\<rparr>) \<le> 0
   \<and> rotation (fst (runOnFinish animated (MisplayOnFinish 0 1)
                       ((card 0 100 100)\<lparr>visible := True, tween := Some 0\<rparr>) idle)) = 360"
    by (simp add: card_def runOnFinish_def animateToLayout_def animate_def)
  from misplay_two_phase_animation [OF inv slow pass i0 f0]
    misplay_two_phase_animation [OF inv slow pass i1 f1]
    slow pass i0 rest
  show ?thesis
    by (intro conjI) (simp_all only: simp_thms)
qed

text \<open>
  The claim as it was stated clears the flag of every flagged child of an animated pass
  and starts the first phase for it. A flagged child of height 0 has its flag still set
  after the pass, an empty slot, and no tween is in flight.
\<close>

theorem misplay_two_phase_animation_counterexample:
  "\<not> animateFast animated
   \<and> doMisplayAnimation ((card 0 100 0)\<lparr>doMisplayAnimation := True\<rparr>)
   \<and> doLayout animated (hand 400 100 [(card 0 100 0)\<lparr>doMisplayAnimation := True\<rparr>]) idle
       = Inr (hand 400 100 [(card 0 100 0)\<lparr>doMisplayAnimation := True, visible := True\<rparr>],
              idle)
   \<and> doMisplayAnimation ((card 0 100 0)\<lparr>doMisplayAnimation := True, visible := True\<rparr>)
   \<and> tween ((card 0 100 0)\<lparr>doMisplayAnimation := True, visible := True\<rparr>) = None
   \<and> tweens idle = []"
  by (simp add: doLayout_def placeChild_def layoutStartX_def startX_def
        layoutSpacing_def usedWidth_def spacingBetweenCards_def spacingDivisor_def Let_def
        hand_def card_def animated_def idle_def)

text \<open>
  Claim C5. For a container whose top-left corner is at the absolute position \<open>pos\<close>, of
  width \<open>W\<close>, height \<open>H\<close> and origin rotation \<open>\<theta>\<close>, with \<open>r = -\<theta>\<pi>/180\<close>,
  \<open>getAbsoluteCenterPos\<close> returns
  \<open>(pos.x + (W/2) cos r + (H/2) sin r, pos.y - (W/2) sin r + (H/2) cos r)\<close>; for
  \<open>\<theta> = 0\<close> this is \<open>pos + (W/2, H/2)\<close>.
\<close>

theorem getAbsoluteCenterPos_formula:
  "getAbsoluteCenterPos this =
     (fst (absolutePosition this)
        + (width this / 2) * cos (- origRotation this * pi / 180)
        + (height this / 2) * sin (- origRotation this * pi / 180),
      snd (absolutePosition this)
        - (width this / 2) * sin (- origRotation this * pi / 180)
        + (height this / 2) * cos (- origRotation this * pi / 180))
   \<and> getAbsoluteCenterPos (this\<lparr>origRotation := 0\<rparr>) =
       (fst (absolutePosition this) + width this / 2,
        snd (absolutePosition this) + height this / 2)"
  by (simp add: getAbsoluteCenterPos_def Let_def)

text \<open>
  Claim C6, as the code has it. With a pace that is not \<open>null\<close> and the risk \<open>Null\<close>,
  \<open>onPaceOrPaceRiskChanged\<close> writes the error message to the console, sets the text of
  the label as for every other risk and leaves the fill colour of the label as it was;
  with the risk \<open>LowRisk\<close> it sets the fill colour to \<open>LABEL_COLOR\<close> and logs nothing.
\<close>

theorem null_risk_keeps_fill:
  assumes "paceNumberLabel screen = Some label"
  shows "onPaceOrPaceRiskChanged LABEL_COLOR \<lparr>pace = Some p, paceRisk = Null\<rparr> screen
         = Inr (screen\<lparr>paceNumberLabel :=
                   Some (label\<lparr>label_text :=
                           (if p > 0 then ''+'' @ toString p else toString p)\<rparr>),
                 console := console screen @
                   [''An invalid value of pace / risk was detected. Pace = ''
                      @ toString p @ '', Risk = Null''],
                 batchDraws := Suc (batchDraws screen)\<rparr>)
       \<and> onPaceOrPaceRiskChanged LABEL_COLOR \<lparr>pace = Some p, paceRisk = LowRisk\<rparr> screen
         = Inr (screen\<lparr>paceNumberLabel :=
                   Some (label\<lparr>label_text :=
                           (if p > 0 then ''+'' @ toString p else toString p),
                         label_fill := LABEL_COLOR\<rparr>),
                 batchDraws := Suc (batchDraws screen)\<rparr>)"
  using assms by (simp add: onPaceOrPaceRiskChanged_def Let_def)

theorem null_risk_keeps_fill_witness:
  "paceNumberLabel redLabel = Some \<lparr>label_text = ''0'', label_fill = ''#df1c2d''\<rparr>
   \<and> onPaceOrPaceRiskChanged ''#d8d5ef'' \<lparr>pace = Some (- 12), paceRisk = Null\<rparr> redLabel
       = Inr \<lparr>paceNumberLabel = Some \<lparr>label_text = ''-12'', label_fill = ''#df1c2d''\<rparr>,
              console = [''An invalid value of pace / risk was detected. Pace = -12, Risk = Null''],
              batchDraws = 1\<rparr>"
  using null_risk_keeps_fill [of redLabel "\<lparr>label_text = ''0'', label_fill = ''#df1c2d''\<rparr>"
      "''#d8d5ef''" "- 12"]
  by (simp add: redLabel_def toString_def)

text \<open>
  The claim as it was stated has the label fall back to the default colour. A label that
  is red stays red when the risk is \<open>Null\<close>, where \<open>LowRisk\<close> makes it the default
  colour (here \<open>#d8d5ef\<close> for \<open>LABEL_COLOR\<close>).
\<close>

theorem null_risk_keeps_fill_counterexample:
  "onPaceOrPaceRiskChanged ''#d8d5ef'' \<lparr>pace = Some 3, paceRisk = Null\<rparr> redLabel
     = Inr \<lparr>paceNumberLabel = Some \<lparr>label_text = ''+3'', label_fill = ''#df1c2d''\<rparr>,
            console = [''An invalid value of pace / risk was detected. Pace = 3, Risk = Null''],
            batchDraws = 1\<rparr>
   \<and> onPaceOrPaceRiskChanged ''#d8d5ef'' \<lparr>pace = Some 3, paceRisk = LowRisk\<rparr> redLabel
     = Inr \<lparr>paceNumberLabel = Some \<lparr>label_text = ''+3'', label_fill = ''#d8d5ef''\<rparr>,
            console = [], batchDraws = 1\<rparr>
   \<and> ''#df1c2d'' \<noteq> ''#d8d5ef''"
  by (simp add: onPaceOrPaceRiskChanged_def Let_def redLabel_def toString_def)

text \<open>
  Claim C7. A container of width 400 and height 100, centred and not reversed, with four
  children of natural size 100 by 100: the used width before spacing is 400, the spacing
  is 0, the cursor starts at 0. In instant mode the children are put at
  \<open>x = 0, 100, 200, 300\<close> with scale 1; in animated mode (no misplay pending, no tween
  in flight) these are the targets of the four tweens.
\<close>

theorem four_cards_example:
  "usedWidth (this\<lparr>width := 400, height := 100, align := ''center'', reverse := False,
      children := [c1\<lparr>width := 100, height := 100\<rparr>, c2\<lparr>width := 100, height := 100\<rparr>,
                   c3\<lparr>width := 100, height := 100\<rparr>, c4\<lparr>width := 100, height := 100\<rparr>]\<rparr>)
     = 400
   \<and> layoutSpacing g (this\<lparr>width := 400, height := 100, align := ''center'', reverse := False,
      children := [c1\<lparr>width := 100, height := 100\<rparr>, c2\<lparr>width := 100, height := 100\<rparr>,
                   c3\<lparr>width := 100, height := 100\<rparr>, c4\<lparr>width := 100, height := 100\<rparr>]\<rparr>)
     = 0
   \<and> layoutStartX g (this\<lparr>width := 400, height := 100, align := ''center'', reverse := False,
      children := [c1\<lparr>width := 100, height := 100\<rparr>, c2\<lparr>width := 100, height := 100\<rparr>,
                   c3\<lparr>width := 100, height := 100\<rparr>, c4\<lparr>width := 100, height := 100\<rparr>]\<rparr>)
     = 0
   \<and> (case doLayout (g\<lparr>animateFast := True\<rparr>)
          (this\<lparr>width := 400, height := 100, align := ''center'', reverse := False,
             children := [c1\<lparr>width := 100, height := 100\<rparr>, c2\<lparr>width := 100, height := 100\<rparr>,
                   c3\<lparr>width := 100, height := 100\<rparr>, c4\<lparr>width := 100, height := 100\<rparr>]\<rparr>) rt of
         Inl e \<Rightarrow> False
       | Inr (this', rt') \<Rightarrow>
           map x (children this') = [0, 100, 200, 300]
         \<and> map scaleX (children this') = [1, 1, 1, 1]
         \<and> map scaleY (children this') = [1, 1, 1, 1])
   \<and> (case doLayout (g\<lparr>animateFast := False\<rparr>)
          (this\<lparr>width := 400, height := 100, align := ''center'', reverse := False,
             children := [c1\<lparr>width := 100, height := 100, tween := None,
                             doMisplayAnimation := False\<rparr>,
                          c2\<lparr>width := 100, height := 100, tween := None,
                             doMisplayAnimation := False\<rparr>,
                          c3\<lparr>width := 100, height := 100, tween := None,
                             doMisplayAnimation := False\<rparr>,
                          c4\<lparr>width := 100, height := 100, tween := None,
                             doMisplayAnimation := False\<rparr>]\<rparr>)
          (rt\<lparr>tweens := []\<rparr>) of
         Inl e \<Rightarrow> False
       | Inr (this', rt') \<Rightarrow>
           map (\<lambda>t. to_x (tween_params t)) (tweens rt') = [0, 100, 200, 300]
         \<and> map (\<lambda>t. to_scale (tween_params t)) (tweens rt')
             = [Some 1, Some 1, Some 1, Some 1]
         \<and> map tween_node (tweens rt') = [cid c1, cid c2, cid c3, cid c4])"
proof (intro conjI)
  show "usedWidth (this\<lparr>width := 400, height := 100, align := ''center'', reverse := False,
      children := [c1\<lparr>width := 100, height := 100\<rparr>, c2\<lparr>width := 100, height := 100\<rparr>,
                   c3\<lparr>width := 100, height := 100\<rparr>, c4\<lparr>width := 100, height := 100\<rparr>]\<rparr>)
     = 400"
    by (simp add: usedWidth_def)
  show "layoutSpacing g (this\<lparr>width := 400, height := 100, align := ''center'', reverse := False,
      children := [c1\<lparr>width := 100, height := 100\<rparr>, c2\<lparr>width := 100, height := 100\<rparr>,
                   c3\<lparr>width := 100, height := 100\<rparr>, c4\<lparr>width := 100, height := 100\<rparr>]\<rparr>)
     = 0"
    by (simp add: layoutSpacing_def usedWidth_def spacingBetweenCards_def spacingDivisor_def)
  show "layoutStartX g (this\<lparr>width := 400, height := 100, align := ''center'', reverse := False,
      children := [c1\<lparr>width := 100, height := 100\<rparr>, c2\<lparr>width := 100, height := 100\<rparr>,
                   c3\<lparr>width := 100, height := 100\<rparr>, c4\<lparr>width := 100, height := 100\<rparr>]\<rparr>)
     = 0"
    by (simp add: layoutStartX_def startX_def layoutSpacing_def usedWidth_def
          spacingBetweenCards_def spacingDivisor_def)
  show "case doLayout (g\<lparr>animateFast := True\<rparr>)
          (this\<lparr>width := 400, height := 100, align := ''center'', reverse := False,
             children := [c1\<lparr>width := 100, height := 100\<rparr>, c2\<lparr>width := 100, height := 100\<rparr>,
                   c3\<lparr>width := 100, height := 100\<rparr>, c4\<lparr>width := 100, height := 100\<rparr>]\<rparr>) rt of
         Inl e \<Rightarrow> False
       | Inr (this', rt') \<Rightarrow>
           map x (children this') = [0, 100, 200, 300]
         \<and> map scaleX (children this') = [1, 1, 1, 1]
         \<and> map scaleY (children this') = [1, 1, 1, 1]"
    by (simp add: doLayout_def placeChild_def layoutStartX_def startX_def layoutSpacing_def
          usedWidth_def spacingBetweenCards_def spacingDivisor_def Let_def
        split: option.split)
  show "case doLayout (g\<lparr>animateFast := False\<rparr>)
          (this\<lparr>width := 400, height := 100, align := ''center'', reverse := False,
             children := [c1\<lparr>width := 100, height := 100, tween := None,
                             doMisplayAnimation := False\<rparr>,
                          c2\<lparr>width := 100, height := 100, tween := None,
                             doMisplayAnimation := False\<rparr>,
                          c3\<lparr>width := 100, height := 100, tween := None,
                             doMisplayAnimation := False\<rparr>,
                          c4\<lparr>width := 100, height := 100, tween := None,
                             doMisplayAnimation := False\<rparr>]\<rparr>)
          (rt\<lparr>tweens := []\<rparr>) of
         Inl e \<Rightarrow> False
       | Inr (this', rt') \<Rightarrow>
           map (\<lambda>t. to_x (tween_params t)) (tweens rt') = [0, 100, 200, 300]
         \<and> map (\<lambda>t. to_scale (tween_params t)) (tweens rt')
             = [Some 1, Some 1, Some 1, Some 1]
         \<and> map tween_node (tweens rt') = [cid c1, cid c2, cid c3, cid c4]"
    by (simp add: doLayout_def placeChild_def layoutStartX_def startX_def layoutSpacing_def
          usedWidth_def spacingBetweenCards_def spacingDivisor_def Let_def
          animateToLayout_def animate_def emit_def destroy_def
        split: option.split)
qed

text \<open>
  Claim C8. With exactly one child (of non-negative width, in a container of non-negative
  height) the spacing is 0 whatever the width of the container. With no child the pass
  changes nothing, calls nothing and evaluates no division; the division by \<open>n - 1\<close>
  is evaluated only for \<open>n > 1\<close>, so its divisor is never 0.
\<close>

theorem spacing_small_hands:
  "(\<forall>lc. children this = [lc] \<and> 0 \<le> height this \<and> 0 \<le> width lc
        \<longrightarrow> layoutSpacing g this = 0)
   \<and> (children this = []
        \<longrightarrow> doLayout g this rt = Inr (this, rt) \<and> usedWidth this = 0
          \<and> layoutSpacing g this = 0 \<and> spacingDivisor (length (children this)) = None)
   \<and> spacingDivisor n \<noteq> Some 0
   \<and> (spacingDivisor n \<noteq> None \<longrightarrow> 1 < n)"
proof (intro conjI allI impI)
  fix lc
  assume h: "children this = [lc] \<and> 0 \<le> height this \<and> 0 \<le> width lc"
  then have "0 \<le> usedWidth this" by (simp add: usedWidth_nonneg)
  with h show "layoutSpacing g this = 0"
    by (simp add: layoutSpacing_def spacingBetweenCards_def spacingDivisor_def Let_def)
next
  assume e: "children this = []"
  then have "this\<lparr>children := []\<rparr> = this" by simp
  with e show "doLayout g this rt = Inr (this, rt)" by (simp add: doLayout_def)
  from e show "usedWidth this = 0" by (simp add: usedWidth_def)
  from e show "layoutSpacing g this = 0"
    by (simp add: layoutSpacing_def usedWidth_def spacingBetweenCards_def spacingDivisor_def)
  from e show "spacingDivisor (length (children this)) = None"
    by (simp add: spacingDivisor_def)
next
  show "spacingDivisor n \<noteq> Some 0" by (simp add: spacingDivisor_def)
next
  assume "spacingDivisor n \<noteq> None"
  then show "1 < n" by (simp add: spacingDivisor_def split: if_splits)
qed

theorem spacing_small_hands_witness:
  "children (hand 400 100 [card 0 100 100]) = [card 0 100 100]
   \<and> 0 \<le> height (hand 400 100 [card 0 100 100]) \<and> 0 \<le> width (card 0 100 100)
   \<and> layoutSpacing animated (hand 400 100 [card 0 100 100]) = 0
   \<and> children (hand 400 100 []) = []
   \<and> doLayout animated (hand 400 100 []) idle = Inr (hand 400 100 [], idle)
   \<and> spacingDivisor 2 \<noteq> None \<and> 1 < (2::nat)"
  using spacing_small_hands [of "hand 400 100 [card 0 100 100]" animated idle 2]
    spacing_small_hands [of "hand 400 100 []" animated idle 2]
  by (simp add: hand_def card_def spacingDivisor_def)

text \<open>
  Claim C9. Constructing a \<open>CardLayout\<close> from a configuration without a width, or
  without a height, fails with an error; with both present the construction succeeds, and
  where alignment, reverse flag and rotation are left out the container has
  \<open>align = "left"\<close>, \<open>reverse = false\<close>, rotation 0; \<open>empathy\<close> is false in every case.
\<close>

theorem constructor_checks_width_and_height:
  "(cfg_width config = None \<or> cfg_height config = None
      \<longrightarrow> (\<exists>msg. constructor config = Inl (Error msg)))
   \<and> (\<forall>w h. cfg_width config = Some w \<and> cfg_height config = Some h \<longrightarrow>
        (\<exists>this. constructor config = Inr this
           \<and> width this = w \<and> height this = h \<and> empathy this = False
           \<and> children this = []
           \<and> (cfg_align config = None \<longrightarrow> align this = ''left'')
           \<and> (cfg_reverse config = None \<longrightarrow> reverse this = False)
           \<and> (cfg_rotation config = None \<longrightarrow> origRotation this = 0)))"
  by (auto simp: constructor_def Let_def orElse_def split: option.splits)

theorem constructor_checks_width_and_height_witness:
  "(\<exists>msg. constructor \<lparr> cfg_x = None, cfg_y = None, cfg_width = None,
        cfg_height = Some 100, cfg_rotation = None, cfg_align = None,
        cfg_reverse = None \<rparr> = Inl (Error msg))
   \<and> (\<exists>this. constructor \<lparr> cfg_x = None, cfg_y = None, cfg_width = Some 400,
        cfg_height = Some 100, cfg_rotation = None, cfg_align = None,
        cfg_reverse = None \<rparr> = Inr this
      \<and> width this = 400 \<and> height this = 100 \<and> empathy this = False
      \<and> align this = ''left'' \<and> reverse this = False \<and> origRotation this = 0)"
  using constructor_checks_width_and_height
    [of "\<lparr> cfg_x = None, cfg_y = None, cfg_width = None,
        cfg_height = Some 100, cfg_rotation = None, cfg_align = None,
        cfg_reverse = None \<rparr>"]
    constructor_checks_width_and_height
    [of "\<lparr> cfg_x = None, cfg_y = None, cfg_width = Some 400,
        cfg_height = Some 100, cfg_rotation = None, cfg_align = None,
        cfg_reverse = None \<rparr>"]
  by auto

text \<open>
  Claim C10. In instant mode a pass always completes, calls neither \<open>startedTweening\<close>
  nor \<open>finishedTweening\<close> for any child and puts no tween in flight. In animated mode
  a pass calls \<open>startedTweening\<close> for every child of positive height and never
  \<open>finishedTweening\<close>; \<open>finishedTweening\<close> is called by the completion callback of the
  layout tween, and not by the completion callback of the misplay tween.
\<close>

theorem tween_notifications_only_when_animated:
  "(animateFast g \<longrightarrow>
      (\<exists>this' rt' evs. doLayout g this rt = Inr (this', rt')
         \<and> calls rt' = calls rt @ evs
         \<and> (\<forall>c. StartedTweening c \<notin> set evs \<and> FinishedTweening c \<notin> set evs)
         \<and> set (tweens rt') \<subseteq> set (tweens rt)))
   \<and> (\<not> animateFast g \<longrightarrow>
        (\<forall>this' rt'. doLayout g this rt = Inr (this', rt') \<longrightarrow>
           (\<exists>evs. calls rt' = calls rt @ evs
              \<and> (\<forall>c. FinishedTweening c \<notin> set evs)
              \<and> (\<forall>lc \<in> set (children this).
                    0 < height lc \<longrightarrow> StartedTweening (cid lc) \<in> set evs))))
   \<and> calls (snd (runOnFinish g LayoutOnFinish lc rt))
       = calls rt @ [FinishedTweening (cid lc), CheckSetDraggable (cid lc)]
   \<and> calls (snd (runOnFinish g (MisplayOnFinish newX scale) lc rt)) = calls rt"
proof (intro conjI impI allI)
  assume fast: "animateFast g"
  from doLayout_fast [OF fast] obtain this' rt' where
    r: "doLayout g this rt = Inr (this', rt')" "set (tweens rt') \<subseteq> set (tweens rt)"
    by blast
  from doLayout_calls [OF r(1)] passCalls_fast [OF fast] r
  show "\<exists>this' rt' evs. doLayout g this rt = Inr (this', rt')
         \<and> calls rt' = calls rt @ evs
         \<and> (\<forall>c. StartedTweening c \<notin> set evs \<and> FinishedTweening c \<notin> set evs)
         \<and> set (tweens rt') \<subseteq> set (tweens rt)"
    by blast
next
  fix this' rt'
  assume slow: "\<not> animateFast g" and r: "doLayout g this rt = Inr (this', rt')"
  from doLayout_calls [OF r] passCalls_no_finished passCalls_started [OF slow]
  show "\<exists>evs. calls rt' = calls rt @ evs
              \<and> (\<forall>c. FinishedTweening c \<notin> set evs)
              \<and> (\<forall>lc \<in> set (children this).
                    0 < height lc \<longrightarrow> StartedTweening (cid lc) \<in> set evs)"
    by blast
next
  show "calls (snd (runOnFinish g LayoutOnFinish lc rt))
       = calls rt @ [FinishedTweening (cid lc), CheckSetDraggable (cid lc)]"
    by (simp add: runOnFinish_def emit_def)
next
  show "calls (snd (runOnFinish g (MisplayOnFinish newX scale) lc rt)) = calls rt"
    by (simp add: runOnFinish_def animateToLayout_def animate_def)
qed

theorem tween_notifications_only_when_animated_witness:
  "animateFast instant
   \<and> doLayout instant (hand 400 100 [card 0 100 100]) idle
       = Inr (hand 400 100
                [(card 0 100 100)\<lparr>visible := True, x := 0, y := 0, scaleX := 1,
                    scaleY := 1, rotation := 0, opacity := 1\<rparr>],
              idle\<lparr>calls := [CheckSetDraggable 0, SetRaiseAndShadowOffset 0]\<rparr>)
   \<and> \<not> animateFast animated
   \<and> card 0 100 100 \<in> set (children (hand 400 100 [card 0 100 100]))
   \<and> 0 < height (card 0 100 100)
   \<and> doLayout animated (hand 400 100 [card 0 100 100]) idle
       = Inr (hand 400 100 [(card 0 100 100)\<lparr>visible := True, tween := Some 0\<rparr>],
              \<lparr>tweens = [\<lparr>tween_handle = 0, tween_node = 0,
                           tween_params = \<lparr>duration = 1 / 2, to_x = 0, to_y = 0,
                             to_scale = Some 1, to_rotation = 0, to_opacity = 1,
                             easing = EaseOut, onFinish = LayoutOnFinish\<rparr>,
                           tween_flag = True\<rparr>],
                nextHandle = 1,
                calls = [StartedTweening 0, SetRaiseAndShadowOffset 0]\<rparr>)"
  using tween_notifications_only_when_animated [of instant "hand 400 100 [card 0 100 100]" idle]
    tween_notifications_only_when_animated [of animated "hand 400 100 [card 0 100 100]" idle]
  by (simp add: doLayout_def placeChild_def layoutStartX_def startX_def layoutSpacing_def
        usedWidth_def spacingBetweenCards_def spacingDivisor_def Let_def hand_def card_def
        instant_def animated_def idle_def emit_def animateToLayout_def animate_def)

end
